theory Spec2Isabelle
  imports Main
begin

section \<open>JavaScript strings\<close>

text \<open>
  Strings are character lists. The methods of \<^verbatim>\<open>String.prototype\<close> that the sources call
  are written out: \<^verbatim>\<open>startsWith\<close>, \<^verbatim>\<open>endsWith\<close>, \<^verbatim>\<open>includes\<close> (here \<open>includes_str\<close>), \<^verbatim>\<open>replace\<close> with a
  string pattern (first occurrence only), \<^verbatim>\<open>split\<close> on a one-character separator and
  \<^verbatim>\<open>trim\<close>, which removes the ASCII white space (the white space beyond ASCII that
  JavaScript also removes has no single character here). \<^verbatim>\<open>s.slice(0, -1)\<close> is
  \<^const>\<open>butlast\<close>.
\<close>

definition startsWith :: "string \<Rightarrow> string \<Rightarrow> bool" where
  "startsWith s p = (take (length p) s = p)"

definition endsWith :: "string \<Rightarrow> string \<Rightarrow> bool" where
  "endsWith s p = (length p \<le> length s \<and> drop (length s - length p) s = p)"

fun includes_str :: "string \<Rightarrow> string \<Rightarrow> bool" where
  "includes_str [] p = (p = [])"
| "includes_str (c # s) p = (startsWith (c # s) p \<or> includes_str s p)"

fun replaceFirst :: "string \<Rightarrow> string \<Rightarrow> string \<Rightarrow> string" where
  "replaceFirst [] p r = (if p = [] then r else [])"
| "replaceFirst (c # s) p r =
     (if startsWith (c # s) p then r @ drop (length p) (c # s) else c # replaceFirst s p r)"

fun splitOn :: "char \<Rightarrow> string \<Rightarrow> string list" where
  "splitOn sep [] = [[]]"
| "splitOn sep (c # s) =
     (if c = sep then [] # splitOn sep s
      else (case splitOn sep s of [] \<Rightarrow> [[c]] | seg # segs \<Rightarrow> (c # seg) # segs))"

definition isSpace :: "char \<Rightarrow> bool" where
  "isSpace c = (c \<in> set [CHR 0x20, CHR 0x09, CHR 0x0A, CHR 0x0B, CHR 0x0C, CHR 0x0D])"

definition trim :: "string \<Rightarrow> string" where
  "trim s = rev (dropWhile isSpace (rev (dropWhile isSpace s)))"

text \<open>The part of a string before the first \<open>sep\<close>, and the part after it when there is one.\<close>

definition splitFirst :: "char \<Rightarrow> string \<Rightarrow> string \<times> string option" where
  "splitFirst sep s =
     (takeWhile (\<lambda>c. c \<noteq> sep) s,
      case dropWhile (\<lambda>c. c \<noteq> sep) s of [] \<Rightarrow> None | _ # rest \<Rightarrow> Some rest)"

section \<open>The platform's URL class\<close>

text \<open>
  The sources parse every location with \<^verbatim>\<open>new URL(s)\<close> and read \<^verbatim>\<open>hostname\<close>,
  \<^verbatim>\<open>pathname\<close>, \<^verbatim>\<open>search\<close> and \<^verbatim>\<open>hash\<close>, assign \<^verbatim>\<open>hostname\<close>, \<^verbatim>\<open>pathname\<close>,
  \<^verbatim>\<open>search\<close> and \<^verbatim>\<open>hash\<close>, and serialise with \<^verbatim>\<open>toString()\<close>. The class belongs to the
  runtime, not to the repository. It is modelled on the absolute \<^verbatim>\<open>http\<close> and \<^verbatim>\<open>https\<close>
  URLs that the URL standard leaves as they are written:

    \<^item> the scheme is \<^verbatim>\<open>https://\<close> or \<^verbatim>\<open>http://\<close> in lower case;
    \<^item> the host is a lower-case domain name (letters, digits, hyphen, dot) whose last label
      starts with a letter and which holds no punycode label; there are no credentials
      and no port;
    \<^item> path, query and fragment hold only characters that the standard does not
      percent-encode, and the path has no dot segment.

  On such a string the constructor of the standard returns the components below (an empty
  path becomes \<^verbatim>\<open>/\<close>). Every other string is treated as one the constructor rejects
  (\<open>None\<close>, the \<^verbatim>\<open>TypeError\<close> that the sources catch); the standard accepts some of them
  after normalising, which the model does not follow.
\<close>

record URL =
  protocol :: string
  hostname :: string
  pathname :: string
  query :: "string option"
  fragment :: "string option"

definition pathChars :: string where
  "pathChars = ''abcdefghijklmnopqrstuvwxyzABCDEFGHIJKLMNOPQRSTUVWXYZ0123456789-._~!$&()*+,;=:@/%''"

definition hostChars :: string where
  "hostChars = ''abcdefghijklmnopqrstuvwxyz0123456789-.''"

definition letters :: string where
  "letters = ''abcdefghijklmnopqrstuvwxyz''"

definition pathChar :: "char \<Rightarrow> bool" where
  "pathChar c = (c \<in> set pathChars)"

definition queryChar :: "char \<Rightarrow> bool" where
  "queryChar c = (pathChar c \<or> c = CHR ''?'')"

definition fragmentChar :: "char \<Rightarrow> bool" where
  "fragmentChar c = (queryChar c \<or> c = CHR ''#'')"

definition dotSegment :: "string \<Rightarrow> bool" where
  "dotSegment seg = (seg \<in> set [''.'', ''..'', ''%2e'', ''%2E'', ''.%2e'', ''.%2E'', ''%2e.'', ''%2E.'',
                                 ''%2e%2e'', ''%2E%2e'', ''%2e%2E'', ''%2E%2E''])"

definition validHost :: "string \<Rightarrow> bool" where
  "validHost h =
     (list_all (\<lambda>c. c \<in> set hostChars) h \<and> \<not> includes_str h ''xn--'' \<and>
      (case last (splitOn CHR ''.'' h) of [] \<Rightarrow> False | c # _ \<Rightarrow> c \<in> set letters))"

definition validPath :: "string \<Rightarrow> bool" where
  "validPath p = (list_all pathChar p \<and> \<not> list_ex dotSegment (splitOn CHR ''/'' p))"

definition validQuery :: "string option \<Rightarrow> bool" where
  "validQuery q = (case q of None \<Rightarrow> True | Some s \<Rightarrow> list_all queryChar s)"

definition validFragment :: "string option \<Rightarrow> bool" where
  "validFragment f = (case f of None \<Rightarrow> True | Some s \<Rightarrow> list_all fragmentChar s)"

definition parseScheme :: "string \<Rightarrow> (string \<times> string) option" where
  "parseScheme s =
     (if startsWith s ''https://'' then Some (''https:'', drop 8 s)
      else if startsWith s ''http://'' then Some (''http:'', drop 7 s)
      else None)"

definition parseURL :: "string \<Rightarrow> URL option" where
  "parseURL input =
     (case splitFirst CHR ''#'' input of (beforeHash, frag) \<Rightarrow>
      case splitFirst CHR ''?'' beforeHash of (beforeQuery, qry) \<Rightarrow>
      case parseScheme beforeQuery of
        None \<Rightarrow> None
      | Some (scheme, rest) \<Rightarrow>
          (let host = takeWhile (\<lambda>c. c \<noteq> CHR ''/'') rest;
               path = dropWhile (\<lambda>c. c \<noteq> CHR ''/'') rest
           in if validHost host \<and> validPath path \<and> validQuery qry \<and> validFragment frag
              then Some \<lparr>protocol = scheme, hostname = host,
                         pathname = (if path = [] then ''/'' else path),
                         query = qry, fragment = frag\<rparr>
              else None))"

text \<open>\<^verbatim>\<open>url.toString()\<close>, the serialisation (\<^verbatim>\<open>href\<close>).\<close>

definition toString :: "URL \<Rightarrow> string" where
  "toString u =
     protocol u @ ''//'' @ hostname u @ pathname u
       @ (case query u of None \<Rightarrow> [] | Some q \<Rightarrow> CHR ''?'' # q)
       @ (case fragment u of None \<Rightarrow> [] | Some f \<Rightarrow> CHR ''#'' # f)"

text \<open>The getters \<^verbatim>\<open>search\<close> and \<^verbatim>\<open>hash\<close>: empty when the component is absent or empty.\<close>

definition search :: "URL \<Rightarrow> string" where
  "search u = (case query u of None \<Rightarrow> [] | Some q \<Rightarrow> if q = [] then [] else CHR ''?'' # q)"

definition hash :: "URL \<Rightarrow> string" where
  "hash u = (case fragment u of None \<Rightarrow> [] | Some f \<Rightarrow> if f = [] then [] else CHR ''#'' # f)"

text \<open>
  The setters. Assigning \<^verbatim>\<open>pathname\<close> re-parses the value as a path (a missing leading
  slash is supplied); assigning \<^verbatim>\<open>search\<close> or \<^verbatim>\<open>hash\<close> removes the component when the
  value is empty and drops one leading \<^verbatim>\<open>?\<close> or \<^verbatim>\<open>#\<close> otherwise. The sources only assign
  values that were read from a parsed URL, and the host \<^verbatim>\<open>www.urbanpubsandbars.com\<close>.
\<close>

definition setPathname :: "URL \<Rightarrow> string \<Rightarrow> URL" where
  "setPathname u v = u\<lparr>pathname := (if startsWith v ''/'' then v else CHR ''/'' # v)\<rparr>"

definition setHostname :: "URL \<Rightarrow> string \<Rightarrow> URL" where
  "setHostname u v = u\<lparr>hostname := v\<rparr>"

definition setSearch :: "URL \<Rightarrow> string \<Rightarrow> URL" where
  "setSearch u v =
     (case v of [] \<Rightarrow> u\<lparr>query := None\<rparr>
      | c # rest \<Rightarrow> u\<lparr>query := Some (if c = CHR ''?'' then rest else v)\<rparr>)"

definition setHash :: "URL \<Rightarrow> string \<Rightarrow> URL" where
  "setHash u v =
     (case v of [] \<Rightarrow> u\<lparr>fragment := None\<rparr>
      | c # rest \<Rightarrow> u\<lparr>fragment := Some (if c = CHR ''#'' then rest else v)\<rparr>)"

section \<open>types.ts\<close>

record SitemapUrl =
  loc :: string
  lastmod :: "string option"
  changefreq :: "string option"
  priority :: "string option"

record SubdomainMapping =
  pathPrefix :: string
  subdomain :: string

text \<open>The object literal \<^verbatim>\<open>{ loc: url }\<close>.\<close>

definition locOnly :: "string \<Rightarrow> SitemapUrl" where
  "locOnly url = \<lparr>loc = url, lastmod = None, changefreq = None, priority = None\<rparr>"

text \<open>
  What the sources throw: the \<^verbatim>\<open>TypeError\<close> of \<^verbatim>\<open>new URL\<close>, the two errors of
  \<^verbatim>\<open>validateTransformation\<close>, a failed fetch or parse of one source, and the two fatal
  errors of \<^verbatim>\<open>generateMergedSitemap\<close>.
\<close>

datatype error =
    InvalidURL
  | TransformValidationFailed
  | SubdomainDetected
  | FetchError string
  | ParseError string
  | AllSourcesFailed
  | NoValidUrlsRemaining

section \<open>url-transformer.ts\<close>

record SubdomainTransformer =
  mappings :: "SubdomainMapping list"

definition WWW_DOMAIN :: string where
  "WWW_DOMAIN = ''www.urbanpubsandbars.com''"

definition MAIN_DOMAIN :: string where
  "MAIN_DOMAIN = ''urbanpubsandbars.com''"

definition CITY_SUBDOMAIN :: string where
  "CITY_SUBDOMAIN = ''city.urbanpubsandbars.com''"

definition CAREERS_SUBDOMAIN :: string where
  "CAREERS_SUBDOMAIN = ''careers.urbanpubsandbars.com''"

text \<open>
  \<^verbatim>\<open>parseMappings\<close>: the parts between commas, trimmed; of each part the first two
  pieces between colons, trimmed; a mapping is kept when both are non-empty.
\<close>

definition parseMapping :: "string \<Rightarrow> SubdomainMapping list" where
  "parseMapping part =
     (case map trim (splitOn CHR '':'' part) of
        prefix # sub # _ \<Rightarrow>
          if prefix \<noteq> [] \<and> sub \<noteq> [] then [\<lparr>pathPrefix = prefix, subdomain = sub\<rparr>] else []
      | _ \<Rightarrow> [])"

definition parseMappings :: "string \<Rightarrow> SubdomainMapping list" where
  "parseMappings pathMappings =
     concat (map parseMapping (map trim (splitOn CHR '','' pathMappings)))"

text \<open>The constructor.\<close>

definition newSubdomainTransformer :: "string \<Rightarrow> SubdomainTransformer" where
  "newSubdomainTransformer pathMappings = \<lparr>mappings = parseMappings pathMappings\<rparr>"

definition transformWithPrefix :: "URL \<Rightarrow> string \<Rightarrow> string \<Rightarrow> error + string" where
  "transformWithPrefix urlObj newHostname prefix =
     (let newPath = ''/'' @ prefix @ pathname urlObj in
      case parseURL (''https://'' @ newHostname @ newPath) of
        None \<Rightarrow> Inl InvalidURL
      | Some transformedUrl \<Rightarrow>
          Inr (toString (setHash (setSearch transformedUrl (search urlObj)) (hash urlObj))))"

definition validateTransformation :: "string \<Rightarrow> string \<Rightarrow> error + string" where
  "validateTransformation transformed original =
     (case parseURL transformed of
        None \<Rightarrow> Inl InvalidURL
      | Some transformedUrl \<Rightarrow>
          if hostname transformedUrl \<noteq> WWW_DOMAIN then Inl TransformValidationFailed
          else if includes_str (hostname transformedUrl) CITY_SUBDOMAIN \<or>
                  includes_str (hostname transformedUrl) CAREERS_SUBDOMAIN
          then Inl SubdomainDetected
          else Inr transformed)"

text \<open>
  \<^verbatim>\<open>transformUrl\<close>. The transformer \<open>t\<close> is \<^verbatim>\<open>this\<close>; the method reads its four domain
  constants and never its \<^verbatim>\<open>mappings\<close>. An exception is rethrown by the \<^verbatim>\<open>catch\<close>, so
  it is the result. \<^verbatim>\<open>new URL(url)\<close> on the string already parsed gives \<open>urlObj\<close> again.
\<close>

definition transformUrl :: "SubdomainTransformer \<Rightarrow> string \<Rightarrow> string \<Rightarrow> error + string" where
  "transformUrl t url sourceDomain =
     (case parseURL url of
        None \<Rightarrow> Inl InvalidURL
      | Some urlObj \<Rightarrow>
          if hostname urlObj = WWW_DOMAIN then Inr url
          else if hostname urlObj = MAIN_DOMAIN
          then Inr (toString (setHostname urlObj WWW_DOMAIN))
          else if sourceDomain = ''main'' \<and> hostname urlObj \<noteq> WWW_DOMAIN
          then Inr (toString (setHostname urlObj WWW_DOMAIN))
          else if hostname urlObj = CITY_SUBDOMAIN
          then (case transformWithPrefix urlObj WWW_DOMAIN ''city-by-urban'' of
                  Inl e \<Rightarrow> Inl e
                | Inr transformedUrl \<Rightarrow> validateTransformation transformedUrl url)
          else if hostname urlObj = CAREERS_SUBDOMAIN
          then (let prefix = ''work-with-us'' in
                if pathname urlObj = ''/'' \<or> pathname urlObj = []
                then (case parseURL (''https://'' @ WWW_DOMAIN @ ''/'' @ prefix) of
                        None \<Rightarrow> Inl InvalidURL
                      | Some transformedUrl \<Rightarrow>
                          validateTransformation
                            (toString (setHash (setSearch transformedUrl (search urlObj)) (hash urlObj)))
                            url)
                else (case transformWithPrefix urlObj WWW_DOMAIN prefix of
                        Inl e \<Rightarrow> Inl e
                      | Inr transformedUrl \<Rightarrow> validateTransformation transformedUrl url))
          else if sourceDomain = ''main''
          then Inr (toString (setHostname urlObj WWW_DOMAIN))
          else Inr url)"

definition getSourceDomain :: "SubdomainTransformer \<Rightarrow> string \<Rightarrow> string" where
  "getSourceDomain t url =
     (case parseURL url of
        None \<Rightarrow> ''unknown''
      | Some urlObj \<Rightarrow>
          if hostname urlObj = WWW_DOMAIN \<or> hostname urlObj = MAIN_DOMAIN then ''main''
          else if hostname urlObj = CITY_SUBDOMAIN then ''city''
          else if hostname urlObj = CAREERS_SUBDOMAIN then ''careers''
          else ''unknown'')"

section \<open>sitemap-builder.ts\<close>

definition MAX_URLS_PER_SITEMAP :: nat where
  "MAX_URLS_PER_SITEMAP = 50000"

definition SITEMAP_NAMESPACE :: string where
  "SITEMAP_NAMESPACE = ''http://www.sitemaps.org/schemas/sitemap/0.9''"

text \<open>\<^verbatim>\<open>text.replace(/c/g, r)\<close> for a one-character pattern.\<close>

definition replaceAll :: "char \<Rightarrow> string \<Rightarrow> string \<Rightarrow> string" where
  "replaceAll c r text = concat (map (\<lambda>x. if x = c then r else [x]) text)"

definition escapeXml :: "string \<Rightarrow> string" where
  "escapeXml text =
     replaceAll (CHR 0x27) ''&apos;''
       (replaceAll (CHR 0x22) ''&quot;''
         (replaceAll CHR ''>'' ''&gt;''
           (replaceAll CHR ''<'' ''&lt;''
             (replaceAll CHR ''&'' ''&amp;'' text))))"

text \<open>
  \<^verbatim>\<open>normalizeUrl\<close>: a root URL and an unparseable string are returned as they are; one
  trailing slash of any other path is removed and the URL serialised again.
\<close>

definition normalizeUrl :: "string \<Rightarrow> string" where
  "normalizeUrl url =
     (case parseURL url of
        None \<Rightarrow> url
      | Some urlObj \<Rightarrow>
          if pathname urlObj = ''/'' \<or> pathname urlObj = [] then url
          else if endsWith (pathname urlObj) ''/''
          then toString (setPathname urlObj (butlast (pathname urlObj)))
          else url)"

text \<open>\<^verbatim>\<open>removeDuplicates\<close>: the loop over \<open>urls\<close> with the set \<open>seen\<close> and the array \<open>unique\<close>.\<close>

fun removeDuplicatesLoop :: "SitemapUrl list \<Rightarrow> string set \<Rightarrow> SitemapUrl list \<Rightarrow> SitemapUrl list" where
  "removeDuplicatesLoop [] seen unique = unique"
| "removeDuplicatesLoop (url # urls) seen unique =
     (let normalized = normalizeUrl (loc url) in
      if normalized \<notin> seen
      then removeDuplicatesLoop urls (insert normalized seen) (unique @ [url])
      else removeDuplicatesLoop urls seen unique)"

definition removeDuplicates :: "SitemapUrl list \<Rightarrow> SitemapUrl list" where
  "removeDuplicates urls = removeDuplicatesLoop urls {} []"

text \<open>
  \<^verbatim>\<open>Array.prototype.sort\<close> with a comparison function: a stable sort, here by insertion.
  The comparison \<^verbatim>\<open>a.loc.localeCompare(b.loc)\<close> is the runtime's collation of two
  strings; it is the parameter \<open>localeCompare\<close> of everything that sorts (negative, zero or
  positive, as in JavaScript).
\<close>

fun insertSorted :: "('a \<Rightarrow> 'a \<Rightarrow> int) \<Rightarrow> 'a \<Rightarrow> 'a list \<Rightarrow> 'a list" where
  "insertSorted cmp x [] = [x]"
| "insertSorted cmp x (y # ys) =
     (if cmp x y \<le> 0 then x # y # ys else y # insertSorted cmp x ys)"

definition sortWith :: "('a \<Rightarrow> 'a \<Rightarrow> int) \<Rightarrow> 'a list \<Rightarrow> 'a list" where
  "sortWith cmp xs = foldr (insertSorted cmp) xs []"

text \<open>A code-unit comparison of two strings, one instance of the parameter.\<close>

fun codeUnitCompare :: "string \<Rightarrow> string \<Rightarrow> int" where
  "codeUnitCompare [] [] = 0"
| "codeUnitCompare [] (y # ys) = - 1"
| "codeUnitCompare (x # xs) [] = 1"
| "codeUnitCompare (x # xs) (y # ys) =
     (if (of_char x :: nat) < of_char y then - 1
      else if (of_char y :: nat) < of_char x then 1
      else codeUnitCompare xs ys)"

text \<open>The array \<open>sortedUrls\<close> of \<^verbatim>\<open>buildSitemapXml\<close>: the entries that are serialised.\<close>

definition sortedUrls :: "(string \<Rightarrow> string \<Rightarrow> int) \<Rightarrow> SitemapUrl list \<Rightarrow> SitemapUrl list" where
  "sortedUrls localeCompare urls =
     sortWith (\<lambda>a b. localeCompare (loc a) (loc b)) (removeDuplicates urls)"

text \<open>An optional field is written when it is present and not the empty string.\<close>

definition optionalTag :: "string \<Rightarrow> string option \<Rightarrow> string" where
  "optionalTag tag v =
     (case v of
        None \<Rightarrow> []
      | Some text \<Rightarrow>
          if text = [] then []
          else ''    <'' @ tag @ ''>'' @ escapeXml text @ ''</'' @ tag @ ''>'' @ [CHR 0x0A])"

definition urlBlock :: "SitemapUrl \<Rightarrow> string" where
  "urlBlock url =
     ''  <url>'' @ [CHR 0x0A]
     @ ''    <loc>'' @ escapeXml (loc url) @ ''</loc>'' @ [CHR 0x0A]
     @ optionalTag ''lastmod'' (lastmod url)
     @ optionalTag ''changefreq'' (changefreq url)
     @ optionalTag ''priority'' (priority url)
     @ ''  </url>'' @ [CHR 0x0A]"

text \<open>The double quote and the line feed, which a string literal here cannot hold.\<close>

definition dq :: string where
  "dq = [CHR 0x22]"

definition nl :: string where
  "nl = [CHR 0x0A]"

definition xmlDeclaration :: string where
  "xmlDeclaration = ''<?xml version='' @ dq @ ''1.0'' @ dq @ '' encoding='' @ dq @ ''UTF-8'' @ dq @ ''?>'' @ nl"

text \<open>The decimal digits of a number, as a template string prints \<^verbatim>\<open>${i + 1}\<close>.\<close>

fun decimal :: "nat \<Rightarrow> string" where
  "decimal n =
     (if n < 10 then [char_of (48 + n)]
      else decimal (n div 10) @ [char_of (48 + n mod 10)])"

declare decimal.simps [simp del]

text \<open>
  The chunk loop of \<^verbatim>\<open>buildSitemapIndex\<close>:
  \<^verbatim>\<open>for (let i = 0; i < urls.length; i += MAX) chunks.push(urls.slice(i, i + MAX))\<close>.
\<close>

function chunkLoop :: "nat \<Rightarrow> 'a list \<Rightarrow> 'a list list \<Rightarrow> 'a list list" where
  "chunkLoop i urls chunks =
     (if i < length urls
      then chunkLoop (i + MAX_URLS_PER_SITEMAP) urls
             (chunks @ [take MAX_URLS_PER_SITEMAP (drop i urls)])
      else chunks)"
  by pat_completeness auto
termination
  by (relation "measure (\<lambda>(i, urls, chunks). length urls - i)")
     (auto simp: MAX_URLS_PER_SITEMAP_def)

declare chunkLoop.simps [simp del]

definition sitemapBlock :: "nat \<Rightarrow> string" where
  "sitemapBlock i =
     (let sitemapUrl = ''https://www.urbanpubsandbars.com/sitemap-'' @ decimal (i + 1) @ ''.xml'' in
      ''  <sitemap>'' @ [CHR 0x0A]
      @ ''    <loc>'' @ escapeXml sitemapUrl @ ''</loc>'' @ [CHR 0x0A]
      @ ''  </sitemap>'' @ [CHR 0x0A])"

definition buildSitemapIndex :: "SitemapUrl list \<Rightarrow> string" where
  "buildSitemapIndex urls =
     (let chunks = chunkLoop 0 urls [] in
      xmlDeclaration
      @ ''<sitemapindex xmlns='' @ dq @ SITEMAP_NAMESPACE @ dq @ ''>'' @ nl
      @ concat (map sitemapBlock [0 ..< length chunks])
      @ ''</sitemapindex>'')"

definition buildSitemapXml :: "(string \<Rightarrow> string \<Rightarrow> int) \<Rightarrow> SitemapUrl list \<Rightarrow> string" where
  "buildSitemapXml localeCompare urls =
     (let sorted = sortedUrls localeCompare urls in
      if length sorted > MAX_URLS_PER_SITEMAP then buildSitemapIndex sorted
      else xmlDeclaration
           @ ''<urlset xmlns='' @ dq @ SITEMAP_NAMESPACE @ dq @ ''>'' @ nl
           @ concat (map urlBlock sorted)
           @ ''</urlset>'')"

text \<open>
  \<^verbatim>\<open>validateUrlsAreWwwOnly\<close>: one step of the loop on the pair of arrays
  \<open>(valid, invalid)\<close>, then the loop.
\<close>

definition subdomainDomains :: "string list" where
  "subdomainDomains = [''city.urbanpubsandbars.com'', ''careers.urbanpubsandbars.com'']"

definition validateStep :: "SitemapUrl list \<times> SitemapUrl list \<Rightarrow> SitemapUrl \<Rightarrow> SitemapUrl list \<times> SitemapUrl list" where
  "validateStep acc url =
     (case acc of (valid, invalid) \<Rightarrow>
      (case parseURL (loc url) of
         None \<Rightarrow> (valid, invalid @ [url])
       | Some urlObj \<Rightarrow>
           if hostname urlObj \<noteq> ''www.urbanpubsandbars.com'' then (valid, invalid @ [url])
           else if pathname urlObj = ''/'' \<or> pathname urlObj = [] \<or>
                   loc url = ''https://www.urbanpubsandbars.com'' \<or>
                   loc url = ''https://www.urbanpubsandbars.com/''
           then (valid @ [url], invalid)
           else if list_ex (\<lambda>sub. includes_str (loc url) sub) subdomainDomains
           then (valid, invalid @ [url])
           else (valid @ [url], invalid)))"

definition validateUrlsAreWwwOnly :: "SitemapUrl list \<Rightarrow> SitemapUrl list \<times> SitemapUrl list" where
  "validateUrlsAreWwwOnly urls = foldl validateStep ([], []) urls"

section \<open>index.ts\<close>

definition PROTECTED_PATHS :: "string list" where
  "PROTECTED_PATHS =
     [''/'', ''/city-by-urban'', ''/venues'', ''/private-hire'', ''/whats-on'', ''/christmas'',
      ''/bookings'', ''/contact'']"

definition PROTECTED_PATH_PATTERNS :: "string list" where
  "PROTECTED_PATH_PATTERNS = [''/bookings/all-sites'']"

definition BASE_URL :: string where
  "BASE_URL = ''https://'' @ WWW_DOMAIN"

definition isProtectedPath :: "string \<Rightarrow> bool" where
  "isProtectedPath path = (path \<in> set PROTECTED_PATHS)"

definition matchesProtectedPattern :: "string \<Rightarrow> bool" where
  "matchesProtectedPattern path = list_ex (\<lambda>pattern. includes_str path pattern) PROTECTED_PATH_PATTERNS"

definition isRootUrl :: "string \<Rightarrow> string \<Rightarrow> bool" where
  "isRootUrl url path = (path = ''/'' \<or> path = [] \<or> url = BASE_URL \<or> url = BASE_URL @ ''/'')"

record Removal =
  removed :: string
  kept :: string
  reason :: string

record DeduplicationResult =
  urls :: "SitemapUrl list"
  removedUrls :: "Removal list"

text \<open>
  The first loop of \<^verbatim>\<open>removeDuplicateMainSiteUrls\<close>: the set \<open>cityPaths\<close> and the map
  \<open>cityUrlsMap\<close>, one step per entry. An entry that does not parse is skipped.
\<close>

definition collectCityPath ::
  "string set \<times> (string \<rightharpoonup> SitemapUrl) \<Rightarrow> SitemapUrl \<Rightarrow> string set \<times> (string \<rightharpoonup> SitemapUrl)" where
  "collectCityPath acc url =
     (case acc of (cityPaths, cityUrlsMap) \<Rightarrow>
      (case parseURL (loc url) of
         None \<Rightarrow> (cityPaths, cityUrlsMap)
       | Some urlObj \<Rightarrow>
           (let path = pathname urlObj in
            if startsWith path ''/city-by-urban/''
            then (let cityPath = replaceFirst path ''/city-by-urban'' [] in
                  if isProtectedPath cityPath then (cityPaths, cityUrlsMap)
                  else (insert cityPath cityPaths, cityUrlsMap(cityPath \<mapsto> url)))
            else (cityPaths, cityUrlsMap))))"

text \<open>The callback of \<^verbatim>\<open>urls.filter\<close>: is the entry kept? An entry that does not parse is.\<close>

definition keepMainSiteUrl :: "string set \<Rightarrow> SitemapUrl \<Rightarrow> bool" where
  "keepMainSiteUrl cityPaths url =
     (case parseURL (loc url) of
        None \<Rightarrow> True
      | Some urlObj \<Rightarrow>
          (let path = pathname urlObj in
           if startsWith path ''/city-by-urban/'' then True
           else if isRootUrl (loc url) path then True
           else if isProtectedPath path then True
           else if matchesProtectedPattern path then True
           else if path \<in> cityPaths then False
           else True))"

text \<open>The record pushed for a removed entry: \<^verbatim>\<open>keptUrl?.loc || 'unknown'\<close>.\<close>

definition removalOf :: "(string \<rightharpoonup> SitemapUrl) \<Rightarrow> SitemapUrl \<Rightarrow> Removal" where
  "removalOf cityUrlsMap url =
     \<lparr>removed = loc url,
      kept = (case parseURL (loc url) of
                None \<Rightarrow> ''unknown''
              | Some urlObj \<Rightarrow>
                  (case cityUrlsMap (pathname urlObj) of
                     None \<Rightarrow> ''unknown''
                   | Some keptUrl \<Rightarrow> if loc keptUrl = [] then ''unknown'' else loc keptUrl)),
      reason = ''Duplicate: city version exists''\<rparr>"

text \<open>
  \<^verbatim>\<open>removeDuplicateMainSiteUrls(urls, trackRemovals)\<close>. Without tracking the source
  returns the filtered array alone, here the field \<open>urls\<close> with no removal recorded.
\<close>

definition removeDuplicateMainSiteUrls :: "SitemapUrl list \<Rightarrow> bool \<Rightarrow> DeduplicationResult" where
  "removeDuplicateMainSiteUrls entries trackRemovals =
     (case foldl collectCityPath ({}, Map.empty) entries of (cityPaths, cityUrlsMap) \<Rightarrow>
        \<lparr>urls = filter (keepMainSiteUrl cityPaths) entries,
         removedUrls =
           (if trackRemovals
            then map (removalOf cityUrlsMap) (filter (\<lambda>url. \<not> keepMainSiteUrl cityPaths url) entries)
            else [])\<rparr>)"

text \<open>\<^verbatim>\<open>normalizePath\<close>, the local function of \<^verbatim>\<open>generateMergedSitemap\<close>.\<close>

definition normalizePath :: "string \<Rightarrow> string" where
  "normalizePath p =
     (if p = ''/'' \<or> p = [] then ''/''
      else if endsWith p ''/'' then butlast p else p)"

definition requiredProtectedPaths :: "(string \<times> string) list" where
  "requiredProtectedPaths = map (\<lambda>path. (path, BASE_URL @ path)) PROTECTED_PATHS"

text \<open>
  The test that an entry is the main-site version of \<open>path\<close>, as both the first loop and
  \<^verbatim>\<open>findIndex\<close> make it; \<open>onError\<close> is what the \<^verbatim>\<open>catch\<close> returns.
\<close>

definition isMainVersion :: "string \<Rightarrow> (SitemapUrl \<Rightarrow> bool) \<Rightarrow> SitemapUrl \<Rightarrow> bool" where
  "isMainVersion path onError u =
     (case parseURL (loc u) of
        None \<Rightarrow> onError u
      | Some urlObj \<Rightarrow>
          normalizePath (pathname urlObj) = normalizePath path \<and>
          hostname urlObj = WWW_DOMAIN \<and> \<not> includes_str (loc u) ''/city-by-urban'')"

text \<open>One round of the first loop: \<^verbatim>\<open>valid.unshift({ loc: url })\<close> when no entry matches.\<close>

definition ensureMainVersion :: "SitemapUrl list \<Rightarrow> string \<times> string \<Rightarrow> SitemapUrl list" where
  "ensureMainVersion valid p =
     (case p of (path, url) \<Rightarrow>
      if list_ex (isMainVersion path (\<lambda>u. normalizePath url = normalizePath (loc u))) valid
      then valid
      else locOnly url # valid)"

definition cityProtectedPaths :: "(string \<times> string) list" where
  "cityProtectedPaths = filter (\<lambda>p. fst p \<noteq> ''/city-by-urban'') requiredProtectedPaths"

definition isCityVersion :: "string \<Rightarrow> SitemapUrl \<Rightarrow> bool" where
  "isCityVersion path u =
     (case parseURL (loc u) of
        None \<Rightarrow> normalizePath (loc u) = normalizePath (BASE_URL @ ''/city-by-urban'' @ path)
      | Some urlObj \<Rightarrow> normalizePath (pathname urlObj) = normalizePath (''/city-by-urban'' @ path))"

text \<open>\<^verbatim>\<open>Array.prototype.findIndex\<close>; \<open>None\<close> is the result \<open>-1\<close>.\<close>

fun findIndex :: "('a \<Rightarrow> bool) \<Rightarrow> 'a list \<Rightarrow> nat option" where
  "findIndex P [] = None"
| "findIndex P (x # xs) = (if P x then Some 0 else map_option Suc (findIndex P xs))"

text \<open>
  One round of the second loop: \<^verbatim>\<open>valid.splice(mainIndex + 1, 0, { loc: cityUrl })\<close> after
  the main version, or \<^verbatim>\<open>valid.push\<close> when there is none.
\<close>

definition ensureCityVersion :: "SitemapUrl list \<Rightarrow> string \<times> string \<Rightarrow> SitemapUrl list" where
  "ensureCityVersion valid p =
     (case p of (path, url) \<Rightarrow>
      (let cityUrl = BASE_URL @ ''/city-by-urban'' @ path in
       if list_ex (isCityVersion path) valid then valid
       else (case findIndex (isMainVersion path (\<lambda>u. False)) valid of
               Some mainIndex \<Rightarrow>
                 take (mainIndex + 1) valid @ [locOnly cityUrl] @ drop (mainIndex + 1) valid
             | None \<Rightarrow> valid @ [locOnly cityUrl])))"

text \<open>
  The stages of \<^verbatim>\<open>generateMergedSitemap\<close> between the collected entries and the builder:
  deduplication, validation, and the two loops that complete the protected paths. The
  result is the array \<open>valid\<close> as \<^verbatim>\<open>buildSitemapXml\<close> receives it.
\<close>

definition completeProtectedPaths :: "SitemapUrl list \<Rightarrow> SitemapUrl list" where
  "completeProtectedPaths valid =
     foldl ensureCityVersion (foldl ensureMainVersion valid requiredProtectedPaths) cityProtectedPaths"

definition finalValid :: "SitemapUrl list \<Rightarrow> SitemapUrl list" where
  "finalValid allUrls =
     (let deduplicatedUrls = urls (removeDuplicateMainSiteUrls allUrls False) in
      case validateUrlsAreWwwOnly deduplicatedUrls of (valid, invalid) \<Rightarrow>
        completeProtectedPaths valid)"

text \<open>
  \<^verbatim>\<open>generateMergedSitemap\<close>. The three arguments are the settled promises of
  \<^verbatim>\<open>Promise.allSettled\<close>: \<open>Inl\<close> a rejection with its reason, \<open>Inr\<close> the entries of a
  fulfilled \<^verbatim>\<open>fetchSitemap\<close>.
\<close>

definition fulfilledUrls :: "error + SitemapUrl list \<Rightarrow> SitemapUrl list" where
  "fulfilledUrls result = (case result of Inl _ \<Rightarrow> [] | Inr value \<Rightarrow> value)"

definition generateMergedSitemap ::
  "(string \<Rightarrow> string \<Rightarrow> int) \<Rightarrow> error + SitemapUrl list \<Rightarrow> error + SitemapUrl list \<Rightarrow>
     error + SitemapUrl list \<Rightarrow> error + string" where
  "generateMergedSitemap localeCompare mainResult cityResult careersResult =
     (let allUrls = fulfilledUrls mainResult @ fulfilledUrls cityResult @ fulfilledUrls careersResult in
      if length allUrls = 0 then Inl AllSourcesFailed
      else (let valid = finalValid allUrls in
            if length valid = 0 then Inl NoValidUrlsRemaining
            else Inr (buildSitemapXml localeCompare valid)))"

text \<open>
  \<^verbatim>\<open>fetchSitemap\<close> after the network: \<open>fetched\<close> is the outcome of the fetch and of
  \<^verbatim>\<open>parseSitemap\<close>. Every location is transformed (an exception of \<^verbatim>\<open>transformUrl\<close>
  rejects the whole source), then the entries off the www domain are filtered out.
\<close>

fun transformAll :: "SubdomainTransformer \<Rightarrow> SitemapUrl list \<Rightarrow> error + SitemapUrl list" where
  "transformAll t [] = Inr []"
| "transformAll t (url # rest) =
     (case transformUrl t (loc url) (getSourceDomain t (loc url)) of
        Inl e \<Rightarrow> Inl e
      | Inr transformedLoc \<Rightarrow>
          (case transformAll t rest of
             Inl e \<Rightarrow> Inl e
           | Inr others \<Rightarrow> Inr (url\<lparr>loc := transformedLoc\<rparr> # others)))"

definition onWwwDomain :: "SitemapUrl \<Rightarrow> bool" where
  "onWwwDomain url =
     (case parseURL (loc url) of
        None \<Rightarrow> False
      | Some urlObj \<Rightarrow>
          (let isValid = (hostname urlObj = WWW_DOMAIN) in
           if isValid \<and> isRootUrl (loc url) (pathname urlObj) then True else isValid))"

definition fetchSitemap ::
  "error + SitemapUrl list \<Rightarrow> string \<Rightarrow> SubdomainTransformer \<Rightarrow> error + SitemapUrl list" where
  "fetchSitemap fetched source transformer =
     (case fetched of
        Inl e \<Rightarrow> Inl e
      | Inr parsed \<Rightarrow>
          (case transformAll transformer parsed of
             Inl e \<Rightarrow> Inl e
           | Inr transformedUrls \<Rightarrow> Inr (filter onWwwDomain transformedUrls)))"

section \<open>Notions used in the statements\<close>

text \<open>
  What every parsed URL satisfies. A URL with these properties is parsed back from its
  serialisation.
\<close>

definition wfURL :: "URL \<Rightarrow> bool" where
  "wfURL u =
     ((protocol u = ''https:'' \<or> protocol u = ''http:'') \<and> validHost (hostname u) \<and>
      startsWith (pathname u) ''/'' \<and> validPath (pathname u) \<and>
      validQuery (query u) \<and> validFragment (fragment u))"

text \<open>
  The normalised path of an entry: the path of its location with one trailing slash
  removed, the root apart; none when the location does not parse.
\<close>

definition normalizedPath :: "SitemapUrl \<Rightarrow> string option" where
  "normalizedPath e = map_option (\<lambda>u. normalizePath (pathname u)) (parseURL (loc e))"

text \<open>
  The test that \<^verbatim>\<open>validateUrlsAreWwwOnly\<close> makes on one entry, as a predicate: the
  location parses, its host is the www domain, and it is a root location or holds no
  subdomain.
\<close>

definition isValidEntry :: "SitemapUrl \<Rightarrow> bool" where
  "isValidEntry url =
     (case parseURL (loc url) of
        None \<Rightarrow> False
      | Some urlObj \<Rightarrow>
          hostname urlObj = ''www.urbanpubsandbars.com'' \<and>
          (pathname urlObj = ''/'' \<or> pathname urlObj = [] \<or>
           loc url = ''https://www.urbanpubsandbars.com'' \<or>
           loc url = ''https://www.urbanpubsandbars.com/'' \<or>
           \<not> list_ex (\<lambda>sub. includes_str (loc url) sub) subdomainDomains))"

text \<open>
  An entry on the www domain that, unless its path is the root, holds neither subdomain in
  its location.
\<close>

definition domainSafe :: "SitemapUrl \<Rightarrow> bool" where
  "domainSafe e =
     (case parseURL (loc e) of
        None \<Rightarrow> False
      | Some u \<Rightarrow>
          hostname u = WWW_DOMAIN \<and>
          (pathname u = ''/'' \<or>
           (\<not> includes_str (loc e) CITY_SUBDOMAIN \<and> \<not> includes_str (loc e) CAREERS_SUBDOMAIN)))"

text \<open>The entries that the two completion loops can insert.\<close>

definition synthesizedEntries :: "SitemapUrl list" where
  "synthesizedEntries =
     map (\<lambda>p. locOnly (snd p)) requiredProtectedPaths
     @ map (\<lambda>p. locOnly (BASE_URL @ ''/city-by-urban'' @ fst p)) cityProtectedPaths"

text \<open>
  A settled promise that was rejected, and the same promise with a rejection read as a
  fulfilment with no entry.
\<close>

definition rejected :: "error + SitemapUrl list \<Rightarrow> bool" where
  "rejected result = (case result of Inl _ \<Rightarrow> True | Inr _ \<Rightarrow> False)"

definition asNoEntries :: "error + SitemapUrl list \<Rightarrow> error + SitemapUrl list" where
  "asNoEntries result = (case result of Inl _ \<Rightarrow> Inr [] | Inr value \<Rightarrow> Inr value)"

text \<open>
  The prefixed path of an entry as the first loop of \<^verbatim>\<open>removeDuplicateMainSiteUrls\<close>
  takes it: the path with \<^verbatim>\<open>/city-by-urban\<close> stripped, when the path starts with
  \<^verbatim>\<open>/city-by-urban/\<close>; and the set of these paths that are not protected paths.
\<close>

definition prefixedPath :: "SitemapUrl \<Rightarrow> string option" where
  "prefixedPath e =
     (case parseURL (loc e) of
        None \<Rightarrow> None
      | Some u \<Rightarrow>
          if startsWith (pathname u) ''/city-by-urban/''
          then Some (drop (length ''/city-by-urban'') (pathname u))
          else None)"

definition prefixedPathSet :: "SitemapUrl list \<Rightarrow> string set" where
  "prefixedPathSet entries =
     {s. \<exists>e \<in> set entries. prefixedPath e = Some s \<and> \<not> isProtectedPath s}"

text \<open>
  The removal rule in the words of the specification. The prefixed-path set holds the path
  with the configured prefix stripped, for the entries whose path starts with that prefix,
  except the paths that equal a protected path. An entry of the un-prefixed path space is
  removed when it is not the root, not a protected path, matches no protected pattern (a
  pattern is a prefix match), and its path is in the prefixed-path set.
\<close>

definition specPrefixedPaths :: "SitemapUrl list \<Rightarrow> string list" where
  "specPrefixedPaths entries =
     concat (map (\<lambda>e. case parseURL (loc e) of
                         None \<Rightarrow> []
                       | Some u \<Rightarrow>
                           if startsWith (pathname u) ''/city-by-urban'' \<and>
                              drop (length ''/city-by-urban'') (pathname u) \<notin> set PROTECTED_PATHS
                           then [drop (length ''/city-by-urban'') (pathname u)]
                           else [])
                 entries)"

definition removedBySpec :: "SitemapUrl list \<Rightarrow> SitemapUrl \<Rightarrow> bool" where
  "removedBySpec entries e =
     (case parseURL (loc e) of
        None \<Rightarrow> False
      | Some u \<Rightarrow>
          \<not> startsWith (pathname u) ''/city-by-urban'' \<and>
          pathname u \<noteq> ''/'' \<and>
          pathname u \<notin> set PROTECTED_PATHS \<and>
          \<not> list_ex (\<lambda>pattern. startsWith (pathname u) pattern) PROTECTED_PATH_PATTERNS \<and>
          pathname u \<in> set (specPrefixedPaths entries))"




text \<open>
  A list of \<open>n\<close> entries, all on the root path of the www domain and different in their
  query: \<^verbatim>\<open>https://www.urbanpubsandbars.com/?\<close>, \<^verbatim>\<open>.../?a\<close>, \<^verbatim>\<open>.../?aa\<close> and so on.
\<close>

definition rootQueryLoc :: "nat \<Rightarrow> string" where
  "rootQueryLoc i = ''https://www.urbanpubsandbars.com/?'' @ replicate i CHR ''a''"

definition rootQueryEntries :: "nat \<Rightarrow> SitemapUrl list" where
  "rootQueryEntries n = map (\<lambda>i. locOnly (rootQueryLoc i)) [0 ..< n]"

text \<open>A decimal digit, and the number that a string of decimal digits writes.\<close>

definition isDigit :: "char \<Rightarrow> bool" where
  "isDigit c = (48 \<le> (of_char c :: nat) \<and> (of_char c :: nat) \<le> 57)"

definition digitsValue :: "string \<Rightarrow> nat" where
  "digitsValue s = foldl (\<lambda>acc c. 10 * acc + ((of_char c :: nat) - 48)) 0 s"

section \<open>Properties of the URL model\<close>

lemma splitFirst_absent: "sep \<notin> set s \<Longrightarrow> splitFirst sep s = (s, None)"
  by (induction s) (auto simp: splitFirst_def)

lemma splitFirst_present: "sep \<notin> set a \<Longrightarrow> splitFirst sep (a @ sep # b) = (a, Some b)"
  by (induction a) (auto simp: splitFirst_def)

lemma splitFirst_fst_no_sep: "sep \<notin> set (fst (splitFirst sep s))"
  by (auto simp: splitFirst_def dest: set_takeWhileD)

lemma hostChar_facts:
  "c \<in> set hostChars \<Longrightarrow> c \<noteq> CHR ''/'' \<and> c \<noteq> CHR ''?'' \<and> c \<noteq> CHR ''#''"
  by (auto simp: hostChars_def)

lemma pathChar_facts: "pathChar c \<Longrightarrow> c \<noteq> CHR ''?'' \<and> c \<noteq> CHR ''#''"
  by (auto simp: pathChar_def pathChars_def)

lemma queryChar_facts: "queryChar c \<Longrightarrow> c \<noteq> CHR ''#''"
  by (auto simp: queryChar_def dest: pathChar_facts)

lemma validHost_set: "validHost h \<Longrightarrow> c \<in> set h \<Longrightarrow> c \<in> set hostChars"
  by (simp add: validHost_def list_all_iff)

lemma validHost_nonempty: "validHost h \<Longrightarrow> h \<noteq> []"
  by (auto simp: validHost_def)

lemma validPath_set: "validPath p \<Longrightarrow> c \<in> set p \<Longrightarrow> pathChar c"
  by (simp add: validPath_def list_all_iff)

lemma startsWith_slash: "startsWith p ''/'' \<longleftrightarrow> (\<exists>r. p = CHR ''/'' # r)"
  by (cases p) (auto simp: startsWith_def)

lemma parseScheme_Some:
  "parseScheme s = Some (scheme, rest) \<Longrightarrow>
     (scheme = ''https:'' \<or> scheme = ''http:'') \<and> s = scheme @ ''//'' @ rest"
proof -
  assume a: "parseScheme s = Some (scheme, rest)"
  show ?thesis
  proof (cases "startsWith s ''https://''")
    case True
    then have "s = ''https://'' @ drop (length ''https://'') s"
      unfolding startsWith_def by (metis append_take_drop_id)
    moreover have "length ''https://'' = 8" by simp
    ultimately have "s = ''https://'' @ drop 8 s" by (simp only:)
    with a True show ?thesis by (simp add: parseScheme_def)
  next
    case False
    with a have h: "startsWith s ''http://''" and r: "scheme = ''http:''" "rest = drop 7 s"
      by (auto simp: parseScheme_def split: if_splits)
    from h have "s = ''http://'' @ drop (length ''http://'') s"
      unfolding startsWith_def by (metis append_take_drop_id)
    moreover have "length ''http://'' = 7" by simp
    ultimately have "s = ''http://'' @ drop 7 s" by (simp only:)
    with r show ?thesis by simp
  qed
qed

lemma parseScheme_https: "parseScheme (''https://'' @ rest) = Some (''https:'', rest)"
  by (simp add: parseScheme_def startsWith_def)

lemma parseScheme_http: "parseScheme (''http://'' @ rest) = Some (''http:'', rest)"
  by (simp add: parseScheme_def startsWith_def)

lemma takeWhile_host: 
  assumes "validHost h"
  shows "takeWhile (\<lambda>c. c \<noteq> CHR ''/'') (h @ CHR ''/'' # r) = h"
    and "dropWhile (\<lambda>c. c \<noteq> CHR ''/'') (h @ CHR ''/'' # r) = CHR ''/'' # r"
proof -
  have "\<forall>c\<in>set h. c \<noteq> CHR ''/''"
    using assms hostChar_facts validHost_set by blast
  then show "takeWhile (\<lambda>c. c \<noteq> CHR ''/'') (h @ CHR ''/'' # r) = h"
    and "dropWhile (\<lambda>c. c \<noteq> CHR ''/'') (h @ CHR ''/'' # r) = CHR ''/'' # r"
    by (induction h) auto
qed

lemma parseURL_wf: "parseURL s = Some u \<Longrightarrow> wfURL u"
proof -
  assume a: "parseURL s = Some u"
  obtain bh frag where 1: "splitFirst CHR ''#'' s = (bh, frag)" by fastforce
  obtain bq qry where 2: "splitFirst CHR ''?'' bh = (bq, qry)" by fastforce
  from a 1 2 obtain scheme rest where 3: "parseScheme bq = Some (scheme, rest)"
    by (auto simp: parseURL_def split: option.splits)
  let ?host = "takeWhile (\<lambda>c. c \<noteq> CHR ''/'') rest"
  let ?path = "dropWhile (\<lambda>c. c \<noteq> CHR ''/'') rest"
  from a 1 2 3 have v: "validHost ?host" "validPath ?path" "validQuery qry" "validFragment frag"
    and u: "u = \<lparr>protocol = scheme, hostname = ?host,
                 pathname = (if ?path = [] then ''/'' else ?path), query = qry, fragment = frag\<rparr>"
    by (auto simp: parseURL_def Let_def split: if_splits)
  have p: "startsWith (if ?path = [] then ''/'' else ?path) ''/''"
  proof (cases ?path)
    case Nil then show ?thesis by (simp add: startsWith_def)
  next
    case (Cons c r)
    then have "c = CHR ''/''" using hd_dropWhile[of "\<lambda>c. c \<noteq> CHR ''/''" rest] by auto
    with Cons show ?thesis by (simp add: startsWith_def)
  qed
  have vp: "validPath ''/''"
    by (simp add: validPath_def pathChar_def pathChars_def dotSegment_def)
  from parseScheme_Some[OF 3] v p vp show ?thesis
    unfolding wfURL_def u by auto
qed

lemma parseURL_toString: 
  assumes "wfURL u" 
  shows "parseURL (toString u) = Some u"
proof -
  from assms obtain r where p: "pathname u = CHR ''/'' # r"
    by (auto simp: wfURL_def startsWith_slash)
  from assms have vh: "validHost (hostname u)" and vp: "validPath (pathname u)"
    and vq: "validQuery (query u)" and vf: "validFragment (fragment u)"
    and pr: "protocol u = ''https:'' \<or> protocol u = ''http:''"
    by (auto simp: wfURL_def)
  let ?B = "protocol u @ ''//'' @ hostname u @ pathname u"
  let ?Q = "case query u of None \<Rightarrow> [] | Some q \<Rightarrow> CHR ''?'' # q"
  let ?F = "case fragment u of None \<Rightarrow> [] | Some f \<Rightarrow> CHR ''#'' # f"
  have B: "CHR ''?'' \<notin> set ?B" "CHR ''#'' \<notin> set ?B"
    using pr vh vp hostChar_facts validHost_set validPath_set pathChar_facts by fastforce+
  have Q: "CHR ''#'' \<notin> set ?Q"
    using vq queryChar_facts by (auto simp: validQuery_def list_all_iff split: option.splits)
  have 1: "splitFirst CHR ''#'' (toString u) = (?B @ ?Q, fragment u)"
  proof (cases "fragment u")
    case None
    then show ?thesis using B Q splitFirst_absent[of "CHR ''#''" "?B @ ?Q"]
      by (simp add: toString_def)
  next
    case (Some f)
    then show ?thesis using B Q splitFirst_present[of "CHR ''#''" "?B @ ?Q" f]
      by (simp add: toString_def)
  qed
  have 2: "splitFirst CHR ''?'' (?B @ ?Q) = (?B, query u)"
  proof (cases "query u")
    case None
    then show ?thesis using B splitFirst_absent[of "CHR ''?''" "?B"] by simp
  next
    case (Some q)
    then show ?thesis using B splitFirst_present[of "CHR ''?''" "?B" q] by simp
  qed
  have 3: "parseScheme ?B = Some (protocol u, hostname u @ pathname u)"
    using pr parseScheme_https parseScheme_http by auto
  have 4: "takeWhile (\<lambda>c. c \<noteq> CHR ''/'') (hostname u @ pathname u) = hostname u"
          "dropWhile (\<lambda>c. c \<noteq> CHR ''/'') (hostname u @ pathname u) = pathname u"
    using takeWhile_host[OF vh] p by auto
  have "parseURL (toString u) =
          (if validHost (hostname u) \<and> validPath (pathname u) \<and> validQuery (query u) \<and>
              validFragment (fragment u)
           then Some \<lparr>protocol = protocol u, hostname = hostname u,
                      pathname = (if pathname u = [] then ''/'' else pathname u),
                      query = query u, fragment = fragment u\<rparr>
           else None)"
    by (simp only: parseURL_def 1 2 3 4 prod.case option.case Let_def)
  then show ?thesis using vh vp vq vf p by simp
qed

lemma splitOn_nonempty: "splitOn sep s \<noteq> []"
  by (induction s) (auto split: list.splits)

lemma splitOn_append_sep: "splitOn sep (a @ sep # b) = splitOn sep a @ splitOn sep b"
proof (induction a)
  case Nil
  then show ?case by simp
next
  case (Cons x a)
  then show ?case
    using splitOn_nonempty[of sep a] by (cases "splitOn sep a") auto
qed

lemma endsWith_slash: "endsWith p ''/'' \<longleftrightarrow> (\<exists>q. p = q @ ''/'')"
proof
  assume "endsWith p ''/''"
  then have "p = take (length p - 1) p @ ''/''"
    unfolding endsWith_def by (metis One_nat_def append_take_drop_id length_Cons list.size(3))
  then show "\<exists>q. p = q @ ''/''" ..
next
  assume "\<exists>q. p = q @ ''/''"
  then show "endsWith p ''/''" by (auto simp: endsWith_def)
qed

lemma validPath_butlast:
  assumes "validPath (q @ ''/'')"
  shows "validPath q"
proof -
  have "splitOn CHR ''/'' (q @ ''/'') = splitOn CHR ''/'' q @ [[]]"
    using splitOn_append_sep[of "CHR ''/''" q "[]"] by simp
  with assms show ?thesis by (auto simp: validPath_def list_ex_iff)
qed

lemma normalizePath_cases:
  "normalizePath p = (if p = ''/'' \<or> p = [] then ''/'' else if endsWith p ''/'' then butlast p else p)"
  by (simp add: normalizePath_def)

lemma wfURL_pathname_update:
  "wfURL u \<Longrightarrow> startsWith p ''/'' \<Longrightarrow> validPath p \<Longrightarrow> wfURL (u\<lparr>pathname := p\<rparr>)"
  by (simp add: wfURL_def)

lemma normalizeUrl_parse:
  assumes "parseURL x = Some u"
  shows "parseURL (normalizeUrl x) = Some (u\<lparr>pathname := normalizePath (pathname u)\<rparr>)"
proof -
  have wf: "wfURL u" using assms by (rule parseURL_wf)
  then obtain r where p: "pathname u = CHR ''/'' # r"
    by (auto simp: wfURL_def startsWith_slash)
  show ?thesis
  proof (cases "pathname u = ''/''")
    case True
    then have "u\<lparr>pathname := normalizePath (pathname u)\<rparr> = u" by (simp add: normalizePath_def)
    with True assms show ?thesis by (simp add: normalizeUrl_def)
  next
    case notroot: False
    show ?thesis
    proof (cases "endsWith (pathname u) ''/''")
      case True
      then obtain q where q: "pathname u = q @ ''/''" by (auto simp: endsWith_slash)
      with p notroot obtain r' where r': "q = CHR ''/'' # r'" by (cases q) auto
      have vq: "validPath q" using wf q validPath_butlast by (simp add: wfURL_def)
      have bl: "butlast (pathname u) = q" using q by simp
      have sp: "setPathname u (butlast (pathname u)) = u\<lparr>pathname := q\<rparr>"
        using r' bl by (simp add: setPathname_def startsWith_def)
      have "wfURL (u\<lparr>pathname := q\<rparr>)"
        using wf vq r' by (intro wfURL_pathname_update) (auto simp: startsWith_def)
      then have "parseURL (toString (u\<lparr>pathname := q\<rparr>)) = Some (u\<lparr>pathname := q\<rparr>)"
        by (rule parseURL_toString)
      moreover have "normalizeUrl x = toString (u\<lparr>pathname := q\<rparr>)"
        using assms notroot True p sp by (simp add: normalizeUrl_def)
      moreover have "normalizePath (pathname u) = q"
        using notroot True p bl by (simp add: normalizePath_def)
      ultimately show ?thesis by simp
    next
      case False
      then have "u\<lparr>pathname := normalizePath (pathname u)\<rparr> = u"
        using notroot p by (simp add: normalizePath_def)
      with False assms notroot p show ?thesis by (simp add: normalizeUrl_def)
    qed
  qed
qed

lemma normalizeUrl_unparseable: "parseURL x = None \<Longrightarrow> normalizeUrl x = x"
  by (simp add: normalizeUrl_def)

lemma endsWith_iff: "endsWith s p \<longleftrightarrow> (\<exists>r. s = r @ p)"
proof
  assume "endsWith s p"
  then have "s = take (length s - length p) s @ p"
    unfolding endsWith_def by (metis append_take_drop_id)
  then show "\<exists>r. s = r @ p" ..
next
  assume "\<exists>r. s = r @ p"
  then show "endsWith s p" by (auto simp: endsWith_def)
qed

lemma endsWith_two_slashes: "endsWith (q @ ''/'') ''//'' \<longleftrightarrow> endsWith q ''/''"
proof -
  have "(\<exists>r. q @ ''/'' = r @ ''//'') \<longleftrightarrow> (\<exists>r. q = r @ ''/'')"
  proof
    assume "\<exists>r. q @ ''/'' = r @ ''//''"
    then obtain r where "q @ ''/'' = (r @ ''/'') @ ''/''" by auto
    then have "q = r @ ''/''" by (simp only: append_same_eq)
    then show "\<exists>r. q = r @ ''/''" ..
  qed auto
  then show ?thesis by (simp only: endsWith_iff)
qed

lemma normalizePath_twice:
  assumes "startsWith p ''/''"
  shows "normalizePath (normalizePath p) = normalizePath p \<longleftrightarrow>
         \<not> (endsWith p ''//'' \<and> p \<noteq> ''//'')"
proof (cases "p = ''/''")
  case True
  then show ?thesis by (simp add: normalizePath_def endsWith_def)
next
  case notroot: False
  show ?thesis
  proof (cases "endsWith p ''/''")
    case True
    then obtain q where q: "p = q @ ''/''" by (auto simp: endsWith_slash)
    with notroot have qne: "q \<noteq> []" by auto
    have 1: "normalizePath p = q" using q notroot True by (simp add: normalizePath_def)
    have 2: "normalizePath q = q \<longleftrightarrow> \<not> (endsWith q ''/'' \<and> q \<noteq> ''/'')"
      using qne by (auto simp: normalizePath_def endsWith_slash)
    have 3: "endsWith p ''//'' \<longleftrightarrow> endsWith q ''/''"
      unfolding q by (rule endsWith_two_slashes)
    have 4: "p \<noteq> ''//'' \<longleftrightarrow> q \<noteq> ''/''" using q by auto
    show ?thesis unfolding 1 2 3 4 ..
  next
    case False
    then have "\<not> endsWith p ''//''" by (auto simp: endsWith_iff)
    with False notroot show ?thesis by (simp add: normalizePath_def)
  qed
qed

lemma normalizeUrl_fixed_iff:
  assumes "parseURL y = Some u"
  shows "normalizeUrl y = y \<longleftrightarrow> normalizePath (pathname u) = pathname u"
proof
  assume "normalizeUrl y = y"
  with normalizeUrl_parse[OF assms] assms
  have "u\<lparr>pathname := normalizePath (pathname u)\<rparr> = u" by simp
  then have "pathname (u\<lparr>pathname := normalizePath (pathname u)\<rparr>) = pathname u" by simp
  then show "normalizePath (pathname u) = pathname u" by simp
next
  assume a: "normalizePath (pathname u) = pathname u"
  have "\<not> (pathname u \<noteq> ''/'' \<and> pathname u \<noteq> [] \<and> endsWith (pathname u) ''/'')"
  proof
    assume b: "pathname u \<noteq> ''/'' \<and> pathname u \<noteq> [] \<and> endsWith (pathname u) ''/''"
    then have "normalizePath (pathname u) = butlast (pathname u)" by (simp add: normalizePath_def)
    with a b show False by (metis append_butlast_last_id self_append_conv snoc_eq_iff_butlast not_Cons_self2)
  qed
  with assms show "normalizeUrl y = y" by (auto simp: normalizeUrl_def)
qed

lemma parse_venues_slash:
  "parseURL ''https://www.urbanpubsandbars.com/venues/'' =
     Some \<lparr>protocol = ''https:'', hostname = ''www.urbanpubsandbars.com'', pathname = ''/venues/'',
           query = None, fragment = None\<rparr>"
  by code_simp

lemma parse_bare_root:
  "parseURL ''https://www.urbanpubsandbars.com'' =
     Some \<lparr>protocol = ''https:'', hostname = ''www.urbanpubsandbars.com'', pathname = ''/'',
           query = None, fragment = None\<rparr>"
  by code_simp

section \<open>Properties of the builder\<close>

subsection \<open>removeDuplicates\<close>

lemma removeDuplicatesLoop_acc:
  "removeDuplicatesLoop entries seen unique = unique @ removeDuplicatesLoop entries seen []"
proof (induction entries arbitrary: seen unique)
  case Nil
  then show ?case by simp
next
  case (Cons e entries)
  show ?case
    using Cons.IH[of "insert (normalizeUrl (loc e)) seen" "unique @ [e]"]
          Cons.IH[of "insert (normalizeUrl (loc e)) seen" "[e]"]
          Cons.IH[of seen unique]
    by (simp add: Let_def)
qed

lemma removeDuplicatesLoop_Cons:
  "removeDuplicatesLoop (e # entries) seen [] =
     (if normalizeUrl (loc e) \<notin> seen
      then e # removeDuplicatesLoop entries (insert (normalizeUrl (loc e)) seen) []
      else removeDuplicatesLoop entries seen [])"
  using removeDuplicatesLoop_acc[of entries "insert (normalizeUrl (loc e)) seen" "[e]"]
  by (simp add: Let_def)

declare removeDuplicatesLoop.simps(2) [simp del]

lemma removeDuplicatesLoop_subset: "set (removeDuplicatesLoop entries seen []) \<subseteq> set entries"
  by (induction entries arbitrary: seen) (auto simp: removeDuplicatesLoop_Cons)

lemma removeDuplicatesLoop_keys:
  "(\<lambda>e. normalizeUrl (loc e)) ` set (removeDuplicatesLoop entries seen []) =
     (\<lambda>e. normalizeUrl (loc e)) ` set entries - seen"
  by (induction entries arbitrary: seen) (auto simp: removeDuplicatesLoop_Cons)

lemma removeDuplicatesLoop_distinct:
  "distinct (map (\<lambda>e. normalizeUrl (loc e)) (removeDuplicatesLoop entries seen []))"
proof (induction entries arbitrary: seen)
  case Nil
  then show ?case by simp
next
  case (Cons e entries)
  have "normalizeUrl (loc e) \<notin>
          (\<lambda>e. normalizeUrl (loc e)) ` set (removeDuplicatesLoop entries (insert (normalizeUrl (loc e)) seen) [])"
    unfolding removeDuplicatesLoop_keys by simp
  with Cons show ?case by (simp add: removeDuplicatesLoop_Cons)
qed

lemma removeDuplicatesLoop_id:
  "distinct (map (\<lambda>e. normalizeUrl (loc e)) entries) \<Longrightarrow>
   (\<lambda>e. normalizeUrl (loc e)) ` set entries \<inter> seen = {} \<Longrightarrow>
   removeDuplicatesLoop entries seen [] = entries"
  by (induction entries arbitrary: seen) (auto simp: removeDuplicatesLoop_Cons)

lemma removeDuplicates_subset: "set (removeDuplicates entries) \<subseteq> set entries"
  by (simp add: removeDuplicates_def removeDuplicatesLoop_subset)

lemma removeDuplicates_keys:
  "(\<lambda>e. normalizeUrl (loc e)) ` set (removeDuplicates entries) =
     (\<lambda>e. normalizeUrl (loc e)) ` set entries"
  by (simp add: removeDuplicates_def removeDuplicatesLoop_keys)

lemma removeDuplicates_distinct:
  "distinct (map (\<lambda>e. normalizeUrl (loc e)) (removeDuplicates entries))"
  by (simp add: removeDuplicates_def removeDuplicatesLoop_distinct)

lemma removeDuplicates_id:
  "distinct (map (\<lambda>e. normalizeUrl (loc e)) entries) \<Longrightarrow> removeDuplicates entries = entries"
  by (simp add: removeDuplicates_def removeDuplicatesLoop_id)

subsection \<open>Sorting\<close>

lemma set_insertSorted: "set (insertSorted cmp x ys) = insert x (set ys)"
  by (induction ys) auto

lemma length_insertSorted: "length (insertSorted cmp x ys) = Suc (length ys)"
  by (induction ys) auto

lemma set_sortWith: "set (sortWith cmp xs) = set xs"
  by (induction xs) (auto simp: sortWith_def set_insertSorted)

lemma length_sortWith: "length (sortWith cmp xs) = length xs"
  by (induction xs) (auto simp: sortWith_def length_insertSorted)



lemma distinct_loc_of_keys:
  "distinct (map (\<lambda>e. normalizeUrl (loc e)) xs) \<Longrightarrow> distinct (map loc xs)"
  by (induction xs) auto

subsection \<open>The code-unit comparison\<close>





subsection \<open>Chunks\<close>

lemma chunk_arith:
  "i < n \<Longrightarrow> Suc ((n - (i + 50000) + 49999) div 50000) = (n - i + 49999) div (50000::nat)"
proof (cases "i + 50000 \<le> n")
  case True
  assume "i < n"
  from True have "n - i + 49999 = (n - (i + 50000) + 49999) + 50000" by simp
  then have "(n - i + 49999) div 50000 = ((n - (i + 50000) + 49999) + 50000) div (50000::nat)"
    by (simp only:)
  also have "\<dots> = Suc ((n - (i + 50000) + 49999) div 50000)"
    by simp
  finally show ?thesis by simp
next
  case False
  assume a: "i < n"
  from False have z: "n - (i + 50000) = 0" by simp
  from False a have "50000 \<le> n - i + 49999" "n - i + 49999 < 2 * 50000" by simp_all
  then have "(n - i + 49999) div 50000 = 1"
    by (metis (no_types) div_nat_eqI mult.commute mult_2 nat_mult_1_right mult_Suc_right One_nat_def Suc_1)
  with z show ?thesis by simp
qed




lemma chunkLoop_length:
  "length (chunkLoop i xs chunks) = length chunks + (length xs - i + 49999) div 50000"
proof (induction i xs chunks rule: chunkLoop.induct)
  case (1 i xs chunks)
  show ?case
  proof (cases "i < length xs")
    case True
    then have "chunkLoop i xs chunks =
        chunkLoop (i + MAX_URLS_PER_SITEMAP) xs (chunks @ [take MAX_URLS_PER_SITEMAP (drop i xs)])"
      by (subst chunkLoop.simps) simp
    moreover have "length (chunkLoop (i + MAX_URLS_PER_SITEMAP) xs
                             (chunks @ [take MAX_URLS_PER_SITEMAP (drop i xs)])) =
                   Suc (length chunks) + (length xs - (i + 50000) + 49999) div 50000"
      using 1[OF True] by (simp add: MAX_URLS_PER_SITEMAP_def)
    ultimately show ?thesis using chunk_arith[OF True] by simp
  next
    case False
    then have "chunkLoop i xs chunks = chunks" by (subst chunkLoop.simps) simp
    with False show ?thesis by simp
  qed
qed

lemma chunkLoop_concat: "concat (chunkLoop i xs chunks) = concat chunks @ drop i xs"
proof (induction i xs chunks rule: chunkLoop.induct)
  case (1 i xs chunks)
  show ?case
  proof (cases "i < length xs")
    case True
    then have "chunkLoop i xs chunks =
        chunkLoop (i + MAX_URLS_PER_SITEMAP) xs (chunks @ [take MAX_URLS_PER_SITEMAP (drop i xs)])"
      by (subst chunkLoop.simps) simp
    moreover have "take MAX_URLS_PER_SITEMAP (drop i xs) @ drop (i + MAX_URLS_PER_SITEMAP) xs = drop i xs"
      by (metis add.commute append_take_drop_id drop_drop)
    ultimately show ?thesis using 1[OF True] by simp
  next
    case False
    then have "chunkLoop i xs chunks = chunks" by (subst chunkLoop.simps) simp
    with False show ?thesis by simp
  qed
qed

lemma chunkLoop_sizes:
  "(\<forall>c\<in>set chunks. c \<noteq> [] \<and> length c \<le> 50000) \<Longrightarrow>
   (\<forall>c\<in>set (chunkLoop i xs chunks). c \<noteq> [] \<and> length c \<le> 50000)"
proof (induction i xs chunks rule: chunkLoop.induct)
  case (1 i xs chunks)
  show ?case
  proof (cases "i < length xs")
    case True
    then have eq: "chunkLoop i xs chunks =
        chunkLoop (i + MAX_URLS_PER_SITEMAP) xs (chunks @ [take MAX_URLS_PER_SITEMAP (drop i xs)])"
      by (subst chunkLoop.simps) simp
    have m: "MAX_URLS_PER_SITEMAP = 50000" by (simp add: MAX_URLS_PER_SITEMAP_def)
    have "take MAX_URLS_PER_SITEMAP (drop i xs) \<noteq> []" using True unfolding m by simp
    moreover have "length (take MAX_URLS_PER_SITEMAP (drop i xs)) \<le> 50000" unfolding m by simp
    ultimately
    have "\<forall>c\<in>set (chunks @ [take MAX_URLS_PER_SITEMAP (drop i xs)]). c \<noteq> [] \<and> length c \<le> 50000"
      using "1.prems" by auto
    from 1(1)[OF True this] show ?thesis unfolding eq .
  next
    case False
    then have "chunkLoop i xs chunks = chunks" by (subst chunkLoop.simps) simp
    with 1 show ?thesis by simp
  qed
qed

lemma splitFirst_prefix: "\<exists>r. s = fst (splitFirst sep s) @ r"
  unfolding splitFirst_def by (metis fst_conv takeWhile_dropWhile_id)

lemma parseURL_needs_scheme:
  assumes "parseURL s = Some u"
  shows "\<exists>r. s = ''http'' @ r"
proof -
  obtain bh frag where 1: "splitFirst CHR ''#'' s = (bh, frag)" by fastforce
  obtain bq qry where 2: "splitFirst CHR ''?'' bh = (bq, qry)" by fastforce
  from assms 1 2 obtain scheme rest where 3: "parseScheme bq = Some (scheme, rest)"
    by (auto simp: parseURL_def split: option.splits)
  from parseScheme_Some[OF 3] obtain r1 where "bq = ''http'' @ r1" by auto
  moreover from splitFirst_prefix[of bh "CHR ''?''"] 2 obtain r2 where "bh = bq @ r2" by auto
  moreover from splitFirst_prefix[of s "CHR ''#''"] 1 obtain r3 where "s = bh @ r3" by auto
  ultimately have "s = ''http'' @ (r1 @ r2 @ r3)" by simp
  then show ?thesis ..
qed

section \<open>Properties of the final stages\<close>

subsection \<open>Validation\<close>

lemma validateStep_eq:
  "validateStep (valid, invalid) url =
     (if isValidEntry url then (valid @ [url], invalid) else (valid, invalid @ [url]))"
  by (auto simp: validateStep_def isValidEntry_def split: option.splits)

lemma validate_foldl:
  "foldl validateStep (valid, invalid) entries =
     (valid @ filter isValidEntry entries, invalid @ filter (\<lambda>e. \<not> isValidEntry e) entries)"
  by (induction entries arbitrary: valid invalid) (simp_all add: validateStep_eq)

lemma validateUrlsAreWwwOnly_eq:
  "validateUrlsAreWwwOnly entries =
     (filter isValidEntry entries, filter (\<lambda>e. \<not> isValidEntry e) entries)"
  by (simp add: validateUrlsAreWwwOnly_def validate_foldl)

lemma parse_slash_root:
  "parseURL ''https://www.urbanpubsandbars.com/'' =
     Some \<lparr>protocol = ''https:'', hostname = ''www.urbanpubsandbars.com'', pathname = ''/'',
           query = None, fragment = None\<rparr>"
  by code_simp

lemma isValidEntry_domainSafe: "isValidEntry e \<Longrightarrow> domainSafe e"
proof -
  assume a: "isValidEntry e"
  then obtain u where u: "parseURL (loc e) = Some u"
    by (auto simp: isValidEntry_def split: option.splits)
  have "pathname u \<noteq> []" using parseURL_wf[OF u] by (auto simp: wfURL_def startsWith_def)
  moreover have "loc e = ''https://www.urbanpubsandbars.com'' \<Longrightarrow> pathname u = ''/''"
    using u parse_bare_root by auto
  moreover have "loc e = ''https://www.urbanpubsandbars.com/'' \<Longrightarrow> pathname u = ''/''"
    using u parse_slash_root by auto
  ultimately show ?thesis using a u
    by (auto simp: isValidEntry_def domainSafe_def WWW_DOMAIN_def subdomainDomains_def
                   CITY_SUBDOMAIN_def CAREERS_SUBDOMAIN_def)
qed

subsection \<open>Completion of the protected paths\<close>

lemma protected_main_safe:
  "list_all (\<lambda>p. domainSafe (locOnly (snd p)) \<and>
                  normalizedPath (locOnly (snd p)) = Some (normalizePath (fst p)) \<and>
                  normalizePath (fst p) = fst p) requiredProtectedPaths"
  by code_simp

lemma protected_city_safe:
  "list_all (\<lambda>p. domainSafe (locOnly (BASE_URL @ ''/city-by-urban'' @ fst p)) \<and>
                  normalizedPath (locOnly (BASE_URL @ ''/city-by-urban'' @ fst p)) =
                    Some (normalizePath (''/city-by-urban'' @ fst p))) cityProtectedPaths"
  by code_simp

lemma cityProtectedPaths_eq:
  "map fst cityProtectedPaths = filter (\<lambda>p. p \<noteq> ''/city-by-urban'') PROTECTED_PATHS"
  by code_simp

lemma requiredProtectedPaths_fst: "map fst requiredProtectedPaths = PROTECTED_PATHS"
  by (simp add: requiredProtectedPaths_def comp_def)

lemma ensureMainVersion_lower: "set valid \<subseteq> set (ensureMainVersion valid p)"
  by (cases p) (auto simp: ensureMainVersion_def)

lemma ensureMainVersion_upper: "set (ensureMainVersion valid p) \<subseteq> insert (locOnly (snd p)) (set valid)"
  by (cases p) (auto simp: ensureMainVersion_def)

lemma set_splice: "set (take n xs @ x # drop n xs) = insert x (set xs)"
proof -
  have "set (take n xs) \<union> set (drop n xs) = set xs" by (metis append_take_drop_id set_append)
  then show ?thesis by auto
qed

lemma set_take_drop: "set (take n xs) \<union> set (drop n xs) = set xs"
  by (metis append_take_drop_id set_append)

lemma ensureCityVersion_set:
  "set (ensureCityVersion valid p) = set valid \<or>
   set (ensureCityVersion valid p) = insert (locOnly (BASE_URL @ ''/city-by-urban'' @ fst p)) (set valid)"
proof (cases p)
  case (Pair path url)
  show ?thesis
  proof (cases "list_ex (isCityVersion path) valid")
    case True
    then show ?thesis by (simp add: Pair ensureCityVersion_def)
  next
    case False
    show ?thesis
    proof (cases "findIndex (isMainVersion path (\<lambda>u. False)) valid")
      case None
      with False show ?thesis by (simp add: Pair ensureCityVersion_def)
    next
      case (Some mainIndex)
      with False show ?thesis by (simp add: Pair ensureCityVersion_def set_take_drop)
    qed
  qed
qed

lemma ensureCityVersion_lower: "set valid \<subseteq> set (ensureCityVersion valid p)"
  using ensureCityVersion_set[of valid p] by auto

lemma ensureCityVersion_upper:
  "set (ensureCityVersion valid p) \<subseteq> insert (locOnly (BASE_URL @ ''/city-by-urban'' @ fst p)) (set valid)"
  using ensureCityVersion_set[of valid p] by auto

lemma foldl_ensureMainVersion_lower: "set valid \<subseteq> set (foldl ensureMainVersion valid ps)"
proof (induction ps arbitrary: valid)
  case Nil
  then show ?case by simp
next
  case (Cons p ps)
  have "set valid \<subseteq> set (ensureMainVersion valid p)" by (rule ensureMainVersion_lower)
  also have "\<dots> \<subseteq> set (foldl ensureMainVersion (ensureMainVersion valid p) ps)" by (rule Cons.IH)
  finally show ?case by simp
qed

lemma foldl_ensureCityVersion_lower: "set valid \<subseteq> set (foldl ensureCityVersion valid ps)"
proof (induction ps arbitrary: valid)
  case Nil
  then show ?case by simp
next
  case (Cons p ps)
  have "set valid \<subseteq> set (ensureCityVersion valid p)" by (rule ensureCityVersion_lower)
  also have "\<dots> \<subseteq> set (foldl ensureCityVersion (ensureCityVersion valid p) ps)" by (rule Cons.IH)
  finally show ?case by simp
qed

lemma foldl_ensureMainVersion_safe:
  "\<forall>e\<in>set valid. domainSafe e \<Longrightarrow> \<forall>p\<in>set ps. domainSafe (locOnly (snd p)) \<Longrightarrow>
   \<forall>e\<in>set (foldl ensureMainVersion valid ps). domainSafe e"
proof (induction ps arbitrary: valid)
  case Nil
  then show ?case by simp
next
  case (Cons p ps)
  have "domainSafe (locOnly (snd p))" using Cons.prems(2) by simp
  then have 1: "\<forall>e\<in>set (ensureMainVersion valid p). domainSafe e"
    using Cons.prems(1) ensureMainVersion_upper[of valid p] by blast
  have 2: "\<forall>q\<in>set ps. domainSafe (locOnly (snd q))" using Cons.prems(2) by simp
  from Cons.IH[OF 1 2] show ?case by simp
qed

lemma foldl_ensureCityVersion_safe:
  "\<forall>e\<in>set valid. domainSafe e \<Longrightarrow>
   \<forall>p\<in>set ps. domainSafe (locOnly (BASE_URL @ ''/city-by-urban'' @ fst p)) \<Longrightarrow>
   \<forall>e\<in>set (foldl ensureCityVersion valid ps). domainSafe e"
proof (induction ps arbitrary: valid)
  case Nil
  then show ?case by simp
next
  case (Cons p ps)
  have "domainSafe (locOnly (BASE_URL @ ''/city-by-urban'' @ fst p))" using Cons.prems(2) by simp
  then have 1: "\<forall>e\<in>set (ensureCityVersion valid p). domainSafe e"
    using Cons.prems(1) ensureCityVersion_upper[of valid p] by blast
  have 2: "\<forall>q\<in>set ps. domainSafe (locOnly (BASE_URL @ ''/city-by-urban'' @ fst q))"
    using Cons.prems(2) by simp
  from Cons.IH[OF 1 2] show ?case by simp
qed

lemma completeProtectedPaths_safe:
  assumes "\<forall>e\<in>set valid. domainSafe e"
  shows "\<forall>e\<in>set (completeProtectedPaths valid). domainSafe e"
proof -
  have m: "\<forall>p\<in>set requiredProtectedPaths. domainSafe (locOnly (snd p))"
    using protected_main_safe by (simp add: list_all_iff)
  have c: "\<forall>p\<in>set cityProtectedPaths. domainSafe (locOnly (BASE_URL @ ''/city-by-urban'' @ fst p))"
    using protected_city_safe by (simp add: list_all_iff)
  show ?thesis
    unfolding completeProtectedPaths_def
    by (intro foldl_ensureCityVersion_safe foldl_ensureMainVersion_safe assms m c)
qed

lemma finalValid_eq:
  "finalValid allUrls =
     completeProtectedPaths (filter isValidEntry (urls (removeDuplicateMainSiteUrls allUrls False)))"
  by (simp add: finalValid_def validateUrlsAreWwwOnly_eq)

lemma finalValid_safe: "\<forall>e\<in>set (finalValid allUrls). domainSafe e"
  unfolding finalValid_eq
  by (rule completeProtectedPaths_safe) (auto intro: isValidEntry_domainSafe)

lemma set_sortedUrls: "set (sortedUrls cmp entries) = set (removeDuplicates entries)"
  by (simp add: sortedUrls_def set_sortWith)

lemma foldl_ensureMainVersion_upper:
  "set (foldl ensureMainVersion valid ps) \<subseteq> set valid \<union> (\<lambda>p. locOnly (snd p)) ` set ps"
proof (induction ps arbitrary: valid)
  case Nil
  then show ?case by simp
next
  case (Cons p ps)
  have "set (foldl ensureMainVersion (ensureMainVersion valid p) ps)
          \<subseteq> set (ensureMainVersion valid p) \<union> (\<lambda>p. locOnly (snd p)) ` set ps"
    by (rule Cons.IH)
  with ensureMainVersion_upper[of valid p] show ?case by auto
qed

lemma foldl_ensureCityVersion_upper:
  "set (foldl ensureCityVersion valid ps)
     \<subseteq> set valid \<union> (\<lambda>p. locOnly (BASE_URL @ ''/city-by-urban'' @ fst p)) ` set ps"
proof (induction ps arbitrary: valid)
  case Nil
  then show ?case by simp
next
  case (Cons p ps)
  have "set (foldl ensureCityVersion (ensureCityVersion valid p) ps)
          \<subseteq> set (ensureCityVersion valid p) \<union> (\<lambda>p. locOnly (BASE_URL @ ''/city-by-urban'' @ fst p)) ` set ps"
    by (rule Cons.IH)
  with ensureCityVersion_upper[of valid p] show ?case by auto
qed

lemma completeProtectedPaths_lower: "set valid \<subseteq> set (completeProtectedPaths valid)"
  unfolding completeProtectedPaths_def
  using foldl_ensureMainVersion_lower foldl_ensureCityVersion_lower by blast

lemma completeProtectedPaths_upper:
  "set (completeProtectedPaths valid) \<subseteq> set valid \<union> set synthesizedEntries"
proof -
  have "set (completeProtectedPaths valid)
          \<subseteq> set (foldl ensureMainVersion valid requiredProtectedPaths)
            \<union> (\<lambda>p. locOnly (BASE_URL @ ''/city-by-urban'' @ fst p)) ` set cityProtectedPaths"
    unfolding completeProtectedPaths_def by (rule foldl_ensureCityVersion_upper)
  also have "\<dots> \<subseteq> (set valid \<union> (\<lambda>p. locOnly (snd p)) ` set requiredProtectedPaths)
            \<union> (\<lambda>p. locOnly (BASE_URL @ ''/city-by-urban'' @ fst p)) ` set cityProtectedPaths"
    using foldl_ensureMainVersion_upper[of valid requiredProtectedPaths] by blast
  also have "\<dots> = set valid \<union> set synthesizedEntries"
    by (auto simp: synthesizedEntries_def)
  finally show ?thesis .
qed

lemma urls_removeDuplicateMainSiteUrls:
  "urls (removeDuplicateMainSiteUrls entries track) =
     filter (keepMainSiteUrl (fst (foldl collectCityPath ({}, Map.empty) entries))) entries"
  by (simp add: removeDuplicateMainSiteUrls_def split: prod.splits)

lemma finalValid_upper: "set (finalValid allUrls) \<subseteq> set allUrls \<union> set synthesizedEntries"
  unfolding finalValid_eq
  using completeProtectedPaths_upper[of "filter isValidEntry (urls (removeDuplicateMainSiteUrls allUrls False))"]
  by (auto simp: urls_removeDuplicateMainSiteUrls)

lemma removeDuplicates_keeps_unique:
  assumes "e \<in> set xs"
    and "\<forall>e'\<in>set xs. normalizeUrl (loc e') = normalizeUrl (loc e) \<longrightarrow> e' = e"
  shows "e \<in> set (removeDuplicates xs)"
proof -
  from assms(1) have "normalizeUrl (loc e) \<in> (\<lambda>e. normalizeUrl (loc e)) ` set (removeDuplicates xs)"
    unfolding removeDuplicates_keys by blast
  then obtain e' where "e' \<in> set (removeDuplicates xs)" "normalizeUrl (loc e') = normalizeUrl (loc e)"
    by auto
  with assms(2) removeDuplicates_subset[of xs] show ?thesis by blast
qed

lemma root_kept: "parseURL (loc e) = Some u \<Longrightarrow> pathname u = ''/'' \<or> pathname u = [] \<Longrightarrow>
  keepMainSiteUrl cityPaths e"
  by (auto simp: keepMainSiteUrl_def isRootUrl_def Let_def)

lemma root_entry_reaches_builder:
  assumes "e \<in> set entries" and "parseURL (loc e) = Some u"
    and "hostname u = ''www.urbanpubsandbars.com''" and "pathname u = ''/'' \<or> pathname u = []"
  shows "e \<in> set (fst (validateUrlsAreWwwOnly entries))" and "e \<in> set (finalValid entries)"
proof -
  from assms have v: "isValidEntry e" by (auto simp: isValidEntry_def)
  with assms(1) show "e \<in> set (fst (validateUrlsAreWwwOnly entries))"
    by (simp add: validateUrlsAreWwwOnly_eq)
  from assms have "e \<in> set (urls (removeDuplicateMainSiteUrls entries False))"
    using root_kept[of e u] by (simp add: urls_removeDuplicateMainSiteUrls)
  with v have "e \<in> set (filter isValidEntry (urls (removeDuplicateMainSiteUrls entries False)))"
    by simp
  then show "e \<in> set (finalValid entries)"
    unfolding finalValid_eq using completeProtectedPaths_lower by blast
qed

lemma parse_root_with_subdomain:
  "parseURL ''https://www.urbanpubsandbars.com/?ref=city.urbanpubsandbars.com'' =
     Some \<lparr>protocol = ''https:'', hostname = ''www.urbanpubsandbars.com'', pathname = ''/'',
           query = Some ''ref=city.urbanpubsandbars.com'', fragment = None\<rparr>"
  by code_simp

lemma includes_root_with_subdomain:
  "includes_str ''https://www.urbanpubsandbars.com/?ref=city.urbanpubsandbars.com''
     ''city.urbanpubsandbars.com''"
  by code_simp

lemma synthesized_keys_differ:
  "list_all (\<lambda>s. normalizeUrl (loc s) \<noteq> ''https://www.urbanpubsandbars.com/?ref=city.urbanpubsandbars.com'')
     synthesizedEntries"
  by code_simp

lemma root_with_subdomain_serialised:
  "locOnly ''https://www.urbanpubsandbars.com/?ref=city.urbanpubsandbars.com''
     \<in> set (sortedUrls cmp
              (finalValid [locOnly ''https://www.urbanpubsandbars.com/?ref=city.urbanpubsandbars.com'']))"
proof -
  let ?R = "''https://www.urbanpubsandbars.com/?ref=city.urbanpubsandbars.com''"
  have p: "parseURL (loc (locOnly ?R)) = Some \<lparr>protocol = ''https:'', hostname = ''www.urbanpubsandbars.com'',
             pathname = ''/'', query = Some ''ref=city.urbanpubsandbars.com'', fragment = None\<rparr>"
    using parse_root_with_subdomain by (simp add: locOnly_def)
  have k: "normalizeUrl (loc (locOnly ?R)) = ?R"
    using parse_root_with_subdomain by (simp add: locOnly_def normalizeUrl_def)
  have m: "locOnly ?R \<in> set (finalValid [locOnly ?R])"
    by (rule root_entry_reaches_builder(2)[OF _ p]) simp_all
  have "\<forall>e'\<in>set (finalValid [locOnly ?R]).
          normalizeUrl (loc e') = normalizeUrl (loc (locOnly ?R)) \<longrightarrow> e' = locOnly ?R"
  proof (intro ballI impI)
    fix e' assume e': "e' \<in> set (finalValid [locOnly ?R])"
      and eq: "normalizeUrl (loc e') = normalizeUrl (loc (locOnly ?R))"
    from e' finalValid_upper[of "[locOnly ?R]"]
    have "e' = locOnly ?R \<or> e' \<in> set synthesizedEntries" by auto
    moreover have "e' \<notin> set synthesizedEntries"
      using synthesized_keys_differ eq k by (auto simp: list_all_iff)
    ultimately show "e' = locOnly ?R" by blast
  qed
  with m have "locOnly ?R \<in> set (removeDuplicates (finalValid [locOnly ?R]))"
    by (rule removeDuplicates_keeps_unique)
  then show ?thesis by (simp add: set_sortedUrls)
qed

section \<open>The domain invariant (claims C1 and C10)\<close>

text \<open>
  Claim C1, as amended. Every entry that the builder serialises after the final stages has
  a location on the canonical domain \<^verbatim>\<open>www.urbanpubsandbars.com\<close>, and unless its path is
  the root its location holds neither \<^verbatim>\<open>city.urbanpubsandbars.com\<close> nor
  \<^verbatim>\<open>careers.urbanpubsandbars.com\<close>.
\<close>

theorem final_entries_on_canonical_domain:
  "\<forall>e \<in> set (sortedUrls localeCompare (finalValid allUrls)).
     \<exists>u. parseURL (loc e) = Some u \<and> hostname u = ''www.urbanpubsandbars.com'' \<and>
         (pathname u \<noteq> ''/'' \<longrightarrow>
            \<not> includes_str (loc e) ''city.urbanpubsandbars.com'' \<and>
            \<not> includes_str (loc e) ''careers.urbanpubsandbars.com'')"
proof
  fix e assume "e \<in> set (sortedUrls localeCompare (finalValid allUrls))"
  then have "e \<in> set (finalValid allUrls)"
    using removeDuplicates_subset by (auto simp: set_sortedUrls)
  then have "domainSafe e" using finalValid_safe by blast
  then obtain u where u: "parseURL (loc e) = Some u" and h: "hostname u = WWW_DOMAIN"
    and r: "pathname u = ''/'' \<or>
            (\<not> includes_str (loc e) CITY_SUBDOMAIN \<and> \<not> includes_str (loc e) CAREERS_SUBDOMAIN)"
    unfolding domainSafe_def by (cases "parseURL (loc e)") auto
  from h have h': "hostname u = ''www.urbanpubsandbars.com''" by (simp only: WWW_DOMAIN_def)
  from r have r': "pathname u \<noteq> ''/'' \<longrightarrow>
            \<not> includes_str (loc e) ''city.urbanpubsandbars.com'' \<and>
            \<not> includes_str (loc e) ''careers.urbanpubsandbars.com''"
    by (simp only: CITY_SUBDOMAIN_def CAREERS_SUBDOMAIN_def) blast
  from u h' r' show "\<exists>u. parseURL (loc e) = Some u \<and> hostname u = ''www.urbanpubsandbars.com'' \<and>
         (pathname u \<noteq> ''/'' \<longrightarrow>
            \<not> includes_str (loc e) ''city.urbanpubsandbars.com'' \<and>
            \<not> includes_str (loc e) ''careers.urbanpubsandbars.com'')"
    by blast
qed

lemma serialised_if_unique:
  assumes "e \<in> set (finalValid allUrls)"
    and "\<forall>e'\<in>set allUrls \<union> set synthesizedEntries.
           normalizeUrl (loc e') = normalizeUrl (loc e) \<longrightarrow> e' = e"
  shows "e \<in> set (sortedUrls cmp (finalValid allUrls))"
proof -
  have "\<forall>e'\<in>set (finalValid allUrls). normalizeUrl (loc e') = normalizeUrl (loc e) \<longrightarrow> e' = e"
    using assms(2) finalValid_upper[of allUrls] by blast
  with assms(1) have "e \<in> set (removeDuplicates (finalValid allUrls))"
    by (rule removeDuplicates_keeps_unique)
  then show ?thesis by (simp add: set_sortedUrls)
qed

lemma parse_venues:
  "parseURL ''https://www.urbanpubsandbars.com/venues'' =
     Some \<lparr>protocol = ''https:'', hostname = ''www.urbanpubsandbars.com'', pathname = ''/venues'',
           query = None, fragment = None\<rparr>"
  by code_simp

lemma venues_valid: "isValidEntry (locOnly ''https://www.urbanpubsandbars.com/venues'')"
  by code_simp

lemma venues_not_deduplicated:
  "urls (removeDuplicateMainSiteUrls [locOnly ''https://www.urbanpubsandbars.com/venues''] False) =
     [locOnly ''https://www.urbanpubsandbars.com/venues'']"
  by code_simp

lemma venues_key_unique:
  "list_all (\<lambda>s. normalizeUrl (loc s) = normalizeUrl ''https://www.urbanpubsandbars.com/venues'' \<longrightarrow>
                  s = locOnly ''https://www.urbanpubsandbars.com/venues'') synthesizedEntries"
  by code_simp

lemma venues_serialised:
  "locOnly ''https://www.urbanpubsandbars.com/venues''
     \<in> set (sortedUrls cmp (finalValid [locOnly ''https://www.urbanpubsandbars.com/venues'']))"
proof (rule serialised_if_unique)
  show "locOnly ''https://www.urbanpubsandbars.com/venues''
          \<in> set (finalValid [locOnly ''https://www.urbanpubsandbars.com/venues''])"
  proof -
    have "filter isValidEntry [locOnly ''https://www.urbanpubsandbars.com/venues''] =
            [locOnly ''https://www.urbanpubsandbars.com/venues'']"
      using venues_valid by simp
    then have "finalValid [locOnly ''https://www.urbanpubsandbars.com/venues''] =
            completeProtectedPaths [locOnly ''https://www.urbanpubsandbars.com/venues'']"
      unfolding finalValid_eq venues_not_deduplicated by (simp only:)
    moreover have "locOnly ''https://www.urbanpubsandbars.com/venues''
            \<in> set (completeProtectedPaths [locOnly ''https://www.urbanpubsandbars.com/venues''])"
      using completeProtectedPaths_lower[of "[locOnly ''https://www.urbanpubsandbars.com/venues'']"]
      by simp
    ultimately show ?thesis by (simp only:)
  qed
  show "\<forall>e'\<in>set [locOnly ''https://www.urbanpubsandbars.com/venues''] \<union> set synthesizedEntries.
           normalizeUrl (loc e') = normalizeUrl (loc (locOnly ''https://www.urbanpubsandbars.com/venues''))
           \<longrightarrow> e' = locOnly ''https://www.urbanpubsandbars.com/venues''"
    using venues_key_unique by (auto simp: list_all_iff locOnly_def)
qed

lemma venues_no_subdomain:
  "\<not> includes_str ''https://www.urbanpubsandbars.com/venues'' ''city.urbanpubsandbars.com'' \<and>
   \<not> includes_str ''https://www.urbanpubsandbars.com/venues'' ''careers.urbanpubsandbars.com''"
  by code_simp

text \<open>Claim C1, witness: the entry \<^verbatim>\<open>/venues\<close> of a one-entry input.\<close>

theorem final_entries_on_canonical_domain_witness:
  "locOnly ''https://www.urbanpubsandbars.com/venues''
     \<in> set (sortedUrls codeUnitCompare (finalValid [locOnly ''https://www.urbanpubsandbars.com/venues''])) \<and>
   (\<exists>u. parseURL ''https://www.urbanpubsandbars.com/venues'' = Some u \<and>
        hostname u = ''www.urbanpubsandbars.com'' \<and> pathname u \<noteq> ''/'' \<and>
        \<not> includes_str ''https://www.urbanpubsandbars.com/venues'' ''city.urbanpubsandbars.com'' \<and>
        \<not> includes_str ''https://www.urbanpubsandbars.com/venues'' ''careers.urbanpubsandbars.com'')"
proof -
  have m: "locOnly ''https://www.urbanpubsandbars.com/venues''
     \<in> set (sortedUrls codeUnitCompare (finalValid [locOnly ''https://www.urbanpubsandbars.com/venues'']))"
    by (rule venues_serialised)
  from final_entries_on_canonical_domain[rule_format, OF m]
  obtain u where "parseURL (loc (locOnly ''https://www.urbanpubsandbars.com/venues'')) = Some u"
    and "hostname u = ''www.urbanpubsandbars.com''"
    and "pathname u \<noteq> ''/'' \<longrightarrow>
            \<not> includes_str (loc (locOnly ''https://www.urbanpubsandbars.com/venues'')) ''city.urbanpubsandbars.com'' \<and>
            \<not> includes_str (loc (locOnly ''https://www.urbanpubsandbars.com/venues'')) ''careers.urbanpubsandbars.com''"
    by blast
  then have "parseURL ''https://www.urbanpubsandbars.com/venues'' = Some u \<and>
        hostname u = ''www.urbanpubsandbars.com'' \<and> pathname u \<noteq> ''/'' \<and>
        \<not> includes_str ''https://www.urbanpubsandbars.com/venues'' ''city.urbanpubsandbars.com'' \<and>
        \<not> includes_str ''https://www.urbanpubsandbars.com/venues'' ''careers.urbanpubsandbars.com''"
    using parse_venues by (auto simp: locOnly_def)
  with m show ?thesis by blast
qed

text \<open>
  Claim C1, counterexample to the second half: a root location with a subdomain in its
  query is serialised.
\<close>

theorem root_entry_with_subdomain_serialised:
  "locOnly ''https://www.urbanpubsandbars.com/?ref=city.urbanpubsandbars.com''
     \<in> set (sortedUrls codeUnitCompare
              (finalValid [locOnly ''https://www.urbanpubsandbars.com/?ref=city.urbanpubsandbars.com''])) \<and>
   includes_str ''https://www.urbanpubsandbars.com/?ref=city.urbanpubsandbars.com''
     ''city.urbanpubsandbars.com''"
  using root_with_subdomain_serialised includes_root_with_subdomain by blast

text \<open>
  Claim C10. An entry whose location parses with the www host and the root path is
  classified valid, whatever else its location holds, and reaches the builder. The
  location \<^verbatim>\<open>https://www.urbanpubsandbars.com/?ref=city.urbanpubsandbars.com\<close> is such an
  entry, and it holds a source subdomain.
\<close>

theorem root_entry_valid_before_subdomain_check:
  "(\<forall>e u. e \<in> set entries \<and> parseURL (loc e) = Some u \<and>
          hostname u = ''www.urbanpubsandbars.com'' \<and> (pathname u = ''/'' \<or> pathname u = [])
        \<longrightarrow> e \<in> set (fst (validateUrlsAreWwwOnly entries)) \<and> e \<in> set (finalValid entries))
   \<and> includes_str ''https://www.urbanpubsandbars.com/?ref=city.urbanpubsandbars.com''
        ''city.urbanpubsandbars.com''
   \<and> locOnly ''https://www.urbanpubsandbars.com/?ref=city.urbanpubsandbars.com''
        \<in> set (fst (validateUrlsAreWwwOnly
                 [locOnly ''https://www.urbanpubsandbars.com/?ref=city.urbanpubsandbars.com'']))
   \<and> locOnly ''https://www.urbanpubsandbars.com/?ref=city.urbanpubsandbars.com''
        \<in> set (finalValid [locOnly ''https://www.urbanpubsandbars.com/?ref=city.urbanpubsandbars.com''])"
proof -
  let ?R = "''https://www.urbanpubsandbars.com/?ref=city.urbanpubsandbars.com''"
  have p: "parseURL (loc (locOnly ?R)) = Some \<lparr>protocol = ''https:'', hostname = ''www.urbanpubsandbars.com'',
             pathname = ''/'', query = Some ''ref=city.urbanpubsandbars.com'', fragment = None\<rparr>"
    using parse_root_with_subdomain by (simp add: locOnly_def)
  have 1: "\<forall>e u. e \<in> set entries \<and> parseURL (loc e) = Some u \<and>
          hostname u = ''www.urbanpubsandbars.com'' \<and> (pathname u = ''/'' \<or> pathname u = [])
        \<longrightarrow> e \<in> set (fst (validateUrlsAreWwwOnly entries)) \<and> e \<in> set (finalValid entries)"
    using root_entry_reaches_builder by blast
  have 2: "locOnly ?R \<in> set (fst (validateUrlsAreWwwOnly [locOnly ?R]))"
    by (rule root_entry_reaches_builder(1)[OF _ p]) simp_all
  have 3: "locOnly ?R \<in> set (finalValid [locOnly ?R])"
    by (rule root_entry_reaches_builder(2)[OF _ p]) simp_all
  from 1 2 3 includes_root_with_subdomain show ?thesis by blast
qed

text \<open>Claim C10, witness: the general half at that entry, in a list of two.\<close>

theorem root_entry_valid_before_subdomain_check_witness:
  "parseURL ''https://www.urbanpubsandbars.com/?ref=city.urbanpubsandbars.com'' =
     Some \<lparr>protocol = ''https:'', hostname = ''www.urbanpubsandbars.com'', pathname = ''/'',
           query = Some ''ref=city.urbanpubsandbars.com'', fragment = None\<rparr> \<and>
   locOnly ''https://www.urbanpubsandbars.com/?ref=city.urbanpubsandbars.com''
     \<in> set (fst (validateUrlsAreWwwOnly
              [locOnly ''https://www.urbanpubsandbars.com/?ref=city.urbanpubsandbars.com'',
               locOnly ''https://www.urbanpubsandbars.com/venues'']))"
proof -
  let ?R = "''https://www.urbanpubsandbars.com/?ref=city.urbanpubsandbars.com''"
  let ?u = "\<lparr>protocol = ''https:'', hostname = ''www.urbanpubsandbars.com'',
             pathname = ''/'', query = Some ''ref=city.urbanpubsandbars.com'', fragment = None\<rparr>"
  have "locOnly ?R \<in> set [locOnly ?R, locOnly ''https://www.urbanpubsandbars.com/venues'']
        \<and> parseURL (loc (locOnly ?R)) = Some ?u
        \<and> hostname ?u = ''www.urbanpubsandbars.com''
        \<and> (pathname ?u = ''/'' \<or> pathname ?u = [])"
    using parse_root_with_subdomain by (simp add: locOnly_def)
  with root_entry_valid_before_subdomain_check[
         of "[locOnly ?R, locOnly ''https://www.urbanpubsandbars.com/venues'']"]
  have "locOnly ?R \<in> set (fst (validateUrlsAreWwwOnly
              [locOnly ?R, locOnly ''https://www.urbanpubsandbars.com/venues'']))"
    by blast
  with parse_root_with_subdomain show ?thesis by blast
qed

subsection \<open>Protected paths after completion\<close>

lemma safe_parses: "domainSafe e \<Longrightarrow> \<exists>u. parseURL (loc e) = Some u"
  by (auto simp: domainSafe_def split: option.splits)

lemma ensureMainVersion_has:
  assumes "\<forall>e\<in>set valid. domainSafe e"
    and "normalizedPath (locOnly (snd p)) = Some (normalizePath (fst p))"
  shows "\<exists>e\<in>set (ensureMainVersion valid p). normalizedPath e = Some (normalizePath (fst p))"
proof (cases p)
  case (Pair path url)
  show ?thesis
  proof (cases "list_ex (isMainVersion path (\<lambda>u. normalizePath url = normalizePath (loc u))) valid")
    case True
    then obtain e where e: "e \<in> set valid"
      and m: "isMainVersion path (\<lambda>u. normalizePath url = normalizePath (loc u)) e"
      by (auto simp: list_ex_iff)
    from e assms(1) obtain u where u: "parseURL (loc e) = Some u" using safe_parses by blast
    with m have "normalizedPath e = Some (normalizePath path)"
      by (simp add: isMainVersion_def normalizedPath_def)
    with e True show ?thesis unfolding Pair by (auto simp: ensureMainVersion_def)
  next
    case False
    then show ?thesis using assms(2) unfolding Pair by (simp add: ensureMainVersion_def)
  qed
qed

lemma ensureCityVersion_has:
  assumes "\<forall>e\<in>set valid. domainSafe e"
    and "normalizedPath (locOnly (BASE_URL @ ''/city-by-urban'' @ fst p)) =
           Some (normalizePath (''/city-by-urban'' @ fst p))"
  shows "\<exists>e\<in>set (ensureCityVersion valid p).
           normalizedPath e = Some (normalizePath (''/city-by-urban'' @ fst p))"
proof (cases p)
  case (Pair path url)
  show ?thesis
  proof (cases "list_ex (isCityVersion path) valid")
    case True
    then obtain e where e: "e \<in> set valid" and m: "isCityVersion path e"
      by (auto simp: list_ex_iff)
    from e assms(1) obtain u where u: "parseURL (loc e) = Some u" using safe_parses by blast
    with m have "normalizedPath e = Some (normalizePath (''/city-by-urban'' @ path))"
      by (simp add: isCityVersion_def normalizedPath_def)
    with e True show ?thesis unfolding Pair by (auto simp: ensureCityVersion_def)
  next
    case False
    have "locOnly (BASE_URL @ ''/city-by-urban'' @ path) \<in> set (ensureCityVersion valid p)"
      using False ensureCityVersion_set[of valid p] unfolding Pair
      by (auto simp: ensureCityVersion_def Let_def split: option.splits)
    with assms(2) show ?thesis unfolding Pair by auto
  qed
qed

lemma foldl_ensureMainVersion_has:
  assumes "\<forall>e\<in>set valid. domainSafe e"
    and "\<forall>p\<in>set ps. domainSafe (locOnly (snd p)) \<and>
                      normalizedPath (locOnly (snd p)) = Some (normalizePath (fst p))"
  shows "\<forall>p\<in>set ps. \<exists>e\<in>set (foldl ensureMainVersion valid ps).
           normalizedPath e = Some (normalizePath (fst p))"
  using assms
proof (induction ps arbitrary: valid)
  case Nil
  then show ?case by simp
next
  case (Cons p ps)
  have d: "domainSafe (locOnly (snd p))" using Cons.prems(2) by simp
  have s: "\<forall>e\<in>set (ensureMainVersion valid p). domainSafe e"
    using d Cons.prems(1) ensureMainVersion_upper[of valid p] by blast
  have r: "\<forall>q\<in>set ps. domainSafe (locOnly (snd q)) \<and>
                      normalizedPath (locOnly (snd q)) = Some (normalizePath (fst q))"
    using Cons.prems(2) by simp
  have ih: "\<forall>q\<in>set ps. \<exists>e\<in>set (foldl ensureMainVersion (ensureMainVersion valid p) ps).
           normalizedPath e = Some (normalizePath (fst q))"
    by (rule Cons.IH[OF s r])
  have "normalizedPath (locOnly (snd p)) = Some (normalizePath (fst p))" using Cons.prems(2) by simp
  from ensureMainVersion_has[OF Cons.prems(1) this]
  obtain e where "e \<in> set (ensureMainVersion valid p)" "normalizedPath e = Some (normalizePath (fst p))"
    by blast
  with foldl_ensureMainVersion_lower[of "ensureMainVersion valid p" ps]
  have "\<exists>e\<in>set (foldl ensureMainVersion (ensureMainVersion valid p) ps).
           normalizedPath e = Some (normalizePath (fst p))" by blast
  with ih show ?case by simp
qed

lemma foldl_ensureCityVersion_has:
  assumes "\<forall>e\<in>set valid. domainSafe e"
    and "\<forall>p\<in>set ps. domainSafe (locOnly (BASE_URL @ ''/city-by-urban'' @ fst p)) \<and>
                      normalizedPath (locOnly (BASE_URL @ ''/city-by-urban'' @ fst p)) =
                        Some (normalizePath (''/city-by-urban'' @ fst p))"
  shows "\<forall>p\<in>set ps. \<exists>e\<in>set (foldl ensureCityVersion valid ps).
           normalizedPath e = Some (normalizePath (''/city-by-urban'' @ fst p))"
  using assms
proof (induction ps arbitrary: valid)
  case Nil
  then show ?case by simp
next
  case (Cons p ps)
  have d: "domainSafe (locOnly (BASE_URL @ ''/city-by-urban'' @ fst p))" using Cons.prems(2) by simp
  have s: "\<forall>e\<in>set (ensureCityVersion valid p). domainSafe e"
    using d Cons.prems(1) ensureCityVersion_upper[of valid p] by blast
  have r: "\<forall>q\<in>set ps. domainSafe (locOnly (BASE_URL @ ''/city-by-urban'' @ fst q)) \<and>
                      normalizedPath (locOnly (BASE_URL @ ''/city-by-urban'' @ fst q)) =
                        Some (normalizePath (''/city-by-urban'' @ fst q))"
    using Cons.prems(2) by simp
  have ih: "\<forall>q\<in>set ps. \<exists>e\<in>set (foldl ensureCityVersion (ensureCityVersion valid p) ps).
           normalizedPath e = Some (normalizePath (''/city-by-urban'' @ fst q))"
    by (rule Cons.IH[OF s r])
  have "normalizedPath (locOnly (BASE_URL @ ''/city-by-urban'' @ fst p)) =
          Some (normalizePath (''/city-by-urban'' @ fst p))" using Cons.prems(2) by simp
  from ensureCityVersion_has[OF Cons.prems(1) this]
  obtain e where "e \<in> set (ensureCityVersion valid p)"
    "normalizedPath e = Some (normalizePath (''/city-by-urban'' @ fst p))"
    by blast
  with foldl_ensureCityVersion_lower[of "ensureCityVersion valid p" ps]
  have "\<exists>e\<in>set (foldl ensureCityVersion (ensureCityVersion valid p) ps).
           normalizedPath e = Some (normalizePath (''/city-by-urban'' @ fst p))" by blast
  with ih show ?case by simp
qed

lemma completeProtectedPaths_has_main:
  assumes "\<forall>e\<in>set valid. domainSafe e"
  shows "\<forall>p\<in>set PROTECTED_PATHS. \<exists>e\<in>set (completeProtectedPaths valid). normalizedPath e = Some p"
proof
  fix p assume "p \<in> set PROTECTED_PATHS"
  then obtain q where q: "q \<in> set requiredProtectedPaths" and p: "fst q = p"
    unfolding requiredProtectedPaths_fst[symmetric] by auto
  have m: "\<forall>p\<in>set requiredProtectedPaths. domainSafe (locOnly (snd p)) \<and>
                      normalizedPath (locOnly (snd p)) = Some (normalizePath (fst p))"
    using protected_main_safe by (simp add: list_all_iff)
  from foldl_ensureMainVersion_has[OF assms m] q
  obtain e where e: "e \<in> set (foldl ensureMainVersion valid requiredProtectedPaths)"
    and n: "normalizedPath e = Some (normalizePath (fst q))" by blast
  have "normalizePath (fst q) = fst q" using protected_main_safe q by (simp add: list_all_iff)
  with n p have "normalizedPath e = Some p" by simp
  moreover have "e \<in> set (completeProtectedPaths valid)"
    unfolding completeProtectedPaths_def using e foldl_ensureCityVersion_lower by blast
  ultimately show "\<exists>e\<in>set (completeProtectedPaths valid). normalizedPath e = Some p" by blast
qed

lemma completeProtectedPaths_has_city:
  assumes "\<forall>e\<in>set valid. domainSafe e"
  shows "\<forall>p\<in>set PROTECTED_PATHS. p \<noteq> ''/city-by-urban'' \<longrightarrow>
           (\<exists>e\<in>set (completeProtectedPaths valid).
              normalizedPath e = Some (normalizePath (''/city-by-urban'' @ p)))"
proof (intro ballI impI)
  fix p assume "p \<in> set PROTECTED_PATHS" and "p \<noteq> ''/city-by-urban''"
  then have "p \<in> set (map fst cityProtectedPaths)" unfolding cityProtectedPaths_eq by simp
  then obtain q where q: "q \<in> set cityProtectedPaths" and p: "fst q = p" by auto
  have m: "\<forall>p\<in>set requiredProtectedPaths. domainSafe (locOnly (snd p))"
    using protected_main_safe by (simp add: list_all_iff)
  have s: "\<forall>e\<in>set (foldl ensureMainVersion valid requiredProtectedPaths). domainSafe e"
    by (rule foldl_ensureMainVersion_safe[OF assms m])
  have c: "\<forall>p\<in>set cityProtectedPaths. domainSafe (locOnly (BASE_URL @ ''/city-by-urban'' @ fst p)) \<and>
                      normalizedPath (locOnly (BASE_URL @ ''/city-by-urban'' @ fst p)) =
                        Some (normalizePath (''/city-by-urban'' @ fst p))"
    using protected_city_safe by (simp add: list_all_iff)
  from foldl_ensureCityVersion_has[OF s c] q p
  show "\<exists>e\<in>set (completeProtectedPaths valid).
              normalizedPath e = Some (normalizePath (''/city-by-urban'' @ p))"
    unfolding completeProtectedPaths_def by blast
qed

lemma same_key_same_path:
  assumes "normalizeUrl (loc e') = normalizeUrl (loc e)" and "normalizedPath e = Some q"
  shows "normalizedPath e' = Some q"
proof -
  from assms(2) obtain u where u: "parseURL (loc e) = Some u" and q: "q = normalizePath (pathname u)"
    by (auto simp: normalizedPath_def)
  have k: "parseURL (normalizeUrl (loc e)) = Some (u\<lparr>pathname := q\<rparr>)"
    using normalizeUrl_parse[OF u] q by simp
  show ?thesis
  proof (cases "parseURL (loc e')")
    case None
    then have "normalizeUrl (loc e') = loc e'" by (rule normalizeUrl_unparseable)
    with assms(1) k None show ?thesis by simp
  next
    case (Some u')
    from normalizeUrl_parse[OF Some] assms(1) k
    have "u'\<lparr>pathname := normalizePath (pathname u')\<rparr> = u\<lparr>pathname := q\<rparr>" by simp
    then have "pathname (u'\<lparr>pathname := normalizePath (pathname u')\<rparr>) = pathname (u\<lparr>pathname := q\<rparr>)"
      by (simp only:)
    then have "normalizePath (pathname u') = q" by simp
    with Some show ?thesis by (simp add: normalizedPath_def)
  qed
qed

lemma sortedUrls_keeps_path:
  assumes "\<exists>e\<in>set entries. normalizedPath e = Some q"
  shows "\<exists>e\<in>set (sortedUrls cmp entries). normalizedPath e = Some q"
proof -
  from assms obtain e where e: "e \<in> set entries" and n: "normalizedPath e = Some q" by blast
  from e have "normalizeUrl (loc e) \<in> (\<lambda>e. normalizeUrl (loc e)) ` set (removeDuplicates entries)"
    unfolding removeDuplicates_keys by blast
  then obtain e' where e': "e' \<in> set (removeDuplicates entries)"
    and k: "normalizeUrl (loc e') = normalizeUrl (loc e)" by auto
  from same_key_same_path[OF k n] e' show ?thesis by (auto simp: set_sortedUrls)
qed

lemma filter_valid_safe: "\<forall>e\<in>set (filter isValidEntry xs). domainSafe e"
  by (auto intro: isValidEntry_domainSafe)

lemma prefixed_protected_normal:
  "list_all (\<lambda>p. p \<noteq> ''/'' \<longrightarrow> normalizePath (''/city-by-urban'' @ p) = ''/city-by-urban'' @ p)
     PROTECTED_PATHS"
  by code_simp

lemma root_protected: "''/'' \<in> set PROTECTED_PATHS"
  by (simp add: PROTECTED_PATHS_def)

lemma finalValid_nonempty: "finalValid allUrls \<noteq> []"
proof -
  have "\<exists>e\<in>set (finalValid allUrls). normalizedPath e = Some ''/''"
    unfolding finalValid_eq
    using completeProtectedPaths_has_main[OF filter_valid_safe] root_protected by blast
  then show ?thesis by auto
qed

lemma sortedUrls_nonempty: "entries \<noteq> [] \<Longrightarrow> sortedUrls cmp entries \<noteq> []"
proof -
  assume "entries \<noteq> []"
  then have "(\<lambda>e. normalizeUrl (loc e)) ` set (removeDuplicates entries) \<noteq> {}"
    unfolding removeDuplicates_keys by simp
  then have "set (sortedUrls cmp entries) \<noteq> {}" by (simp add: set_sortedUrls)
  then show ?thesis by auto
qed

lemma generateMergedSitemap_eq:
  "generateMergedSitemap cmp mainResult cityResult careersResult =
     (if fulfilledUrls mainResult @ fulfilledUrls cityResult @ fulfilledUrls careersResult = []
      then Inl AllSourcesFailed
      else Inr (buildSitemapXml cmp
                  (finalValid (fulfilledUrls mainResult @ fulfilledUrls cityResult @ fulfilledUrls careersResult))))"
  using finalValid_nonempty by (simp add: generateMergedSitemap_def Let_def)

lemma fulfilledUrls_asNoEntries: "fulfilledUrls (asNoEntries r) = fulfilledUrls r"
  by (cases r) (simp_all add: fulfilledUrls_def asNoEntries_def)

section \<open>Failure of one source (claim C5)\<close>

text \<open>
  Claim C5, as amended. When exactly one of the three fetches is rejected and the other
  two bring at least one entry between them, the merge returns a document: the builder's
  output for the entries of the fulfilled sources, with at least one serialised entry, and
  the same document as when the rejected source had been fulfilled with no entry.
\<close>

theorem one_source_failure_tolerated:
  assumes "length (filter rejected [mainResult, cityResult, careersResult]) = 1"
    and "fulfilledUrls mainResult @ fulfilledUrls cityResult @ fulfilledUrls careersResult \<noteq> []"
  shows "generateMergedSitemap localeCompare mainResult cityResult careersResult =
           Inr (buildSitemapXml localeCompare
                  (finalValid (fulfilledUrls mainResult @ fulfilledUrls cityResult @ fulfilledUrls careersResult)))
         \<and> sortedUrls localeCompare
              (finalValid (fulfilledUrls mainResult @ fulfilledUrls cityResult @ fulfilledUrls careersResult)) \<noteq> []
         \<and> generateMergedSitemap localeCompare mainResult cityResult careersResult =
             generateMergedSitemap localeCompare (asNoEntries mainResult) (asNoEntries cityResult)
               (asNoEntries careersResult)"
  using assms(2) sortedUrls_nonempty[OF finalValid_nonempty]
  by (simp add: generateMergedSitemap_eq fulfilledUrls_asNoEntries)

text \<open>Claim C5, witness: the main source answers HTTP 500, the city source brings one entry.\<close>

theorem one_source_failure_tolerated_witness:
  "length (filter rejected
     [Inl (FetchError ''HTTP 500''), Inr [locOnly ''https://www.urbanpubsandbars.com/city-by-urban/fleet''],
      Inr []]) = 1 \<and>
   generateMergedSitemap codeUnitCompare (Inl (FetchError ''HTTP 500''))
       (Inr [locOnly ''https://www.urbanpubsandbars.com/city-by-urban/fleet'']) (Inr []) =
     Inr (buildSitemapXml codeUnitCompare
            (finalValid [locOnly ''https://www.urbanpubsandbars.com/city-by-urban/fleet'']))"
proof -
  have 1: "length (filter rejected
     [Inl (FetchError ''HTTP 500''), Inr [locOnly ''https://www.urbanpubsandbars.com/city-by-urban/fleet''],
      Inr []]) = 1"
    by (simp add: rejected_def)
  have 2: "fulfilledUrls (Inl (FetchError ''HTTP 500''))
           @ fulfilledUrls (Inr [locOnly ''https://www.urbanpubsandbars.com/city-by-urban/fleet''])
           @ fulfilledUrls (Inr []) = [locOnly ''https://www.urbanpubsandbars.com/city-by-urban/fleet'']"
    by (simp add: fulfilledUrls_def)
  have 3: "fulfilledUrls (Inl (FetchError ''HTTP 500''))
           @ fulfilledUrls (Inr [locOnly ''https://www.urbanpubsandbars.com/city-by-urban/fleet''])
           @ fulfilledUrls (Inr []) \<noteq> []"
    unfolding 2 by simp
  from one_source_failure_tolerated[OF 1 3, of codeUnitCompare] 1 show ?thesis
    unfolding 2 by blast
qed

text \<open>
  Claim C5, counterexample: the main source answers HTTP 500 and the two others are
  fetched and parsed but hold no entry; the merge fails.
\<close>

theorem one_failure_two_empty_sources_fatal:
  "fetchSitemap (Inr []) ''city'' (newSubdomainTransformer '''') = Inr [] \<and>
   fetchSitemap (Inr []) ''careers'' (newSubdomainTransformer '''') = Inr [] \<and>
   generateMergedSitemap codeUnitCompare
     (fetchSitemap (Inl (FetchError ''HTTP 500'')) ''main'' (newSubdomainTransformer ''''))
     (fetchSitemap (Inr []) ''city'' (newSubdomainTransformer ''''))
     (fetchSitemap (Inr []) ''careers'' (newSubdomainTransformer ''''))
     = Inl AllSourcesFailed"
  by (simp add: fetchSitemap_def generateMergedSitemap_def fulfilledUrls_def)

section \<open>No valid entry (claim C6)\<close>

lemma parse_bad:
  "parseURL ''https://www.urbanpubsandbars.com/x?u=city.urbanpubsandbars.com'' =
     Some \<lparr>protocol = ''https:'', hostname = ''www.urbanpubsandbars.com'', pathname = ''/x'',
           query = Some ''u=city.urbanpubsandbars.com'', fragment = None\<rparr>"
  by code_simp

lemma bad_invalid:
  "\<not> isValidEntry (locOnly ''https://www.urbanpubsandbars.com/x?u=city.urbanpubsandbars.com'')"
  by code_simp

text \<open>
  Claim C6, the code at the failing input. The only entry is on the www domain, is not a
  root and holds a subdomain, so validation leaves no valid entry; the completion loops
  then insert the protected paths and the merge returns a document. For no input at all
  does the merge fail with the no-valid-entries error: the test \<^verbatim>\<open>valid.length === 0\<close>
  comes after the completion, which never leaves the array empty.
\<close>

theorem no_valid_entries_still_builds:
  "fst (validateUrlsAreWwwOnly
          (urls (removeDuplicateMainSiteUrls
                   [locOnly ''https://www.urbanpubsandbars.com/x?u=city.urbanpubsandbars.com''] False))) = []
   \<and> generateMergedSitemap codeUnitCompare
        (Inr [locOnly ''https://www.urbanpubsandbars.com/x?u=city.urbanpubsandbars.com'']) (Inr []) (Inr [])
       = Inr (buildSitemapXml codeUnitCompare (completeProtectedPaths []))
   \<and> generateMergedSitemap localeCompare mainResult cityResult careersResult \<noteq> Inl NoValidUrlsRemaining"
proof -
  let ?bad = "locOnly ''https://www.urbanpubsandbars.com/x?u=city.urbanpubsandbars.com''"
  have f: "filter isValidEntry (urls (removeDuplicateMainSiteUrls [?bad] False)) = []"
    using bad_invalid by (simp add: urls_removeDuplicateMainSiteUrls)
  have 1: "fst (validateUrlsAreWwwOnly (urls (removeDuplicateMainSiteUrls [?bad] False))) = []"
    using f by (simp add: validateUrlsAreWwwOnly_eq)
  have "finalValid [?bad] = completeProtectedPaths []"
    unfolding finalValid_eq f ..
  then have 2: "generateMergedSitemap codeUnitCompare (Inr [?bad]) (Inr []) (Inr [])
       = Inr (buildSitemapXml codeUnitCompare (completeProtectedPaths []))"
    by (simp add: generateMergedSitemap_eq fulfilledUrls_def)
  have 3: "generateMergedSitemap localeCompare mainResult cityResult careersResult \<noteq> Inl NoValidUrlsRemaining"
    by (simp add: generateMergedSitemap_eq)
  from 1 2 3 show ?thesis by blast
qed

subsection \<open>The set of prefixed paths\<close>

lemma startsWith_iff: "startsWith s p \<longleftrightarrow> (\<exists>r. s = p @ r)"
proof
  assume "startsWith s p"
  then have "s = p @ drop (length p) s" unfolding startsWith_def by (metis append_take_drop_id)
  then show "\<exists>r. s = p @ r" ..
next
  assume "\<exists>r. s = p @ r"
  then show "startsWith s p" by (auto simp: startsWith_def)
qed

lemma replaceFirst_prefix:
  assumes "startsWith path ''/city-by-urban/''"
  shows "replaceFirst path ''/city-by-urban'' [] = drop (length ''/city-by-urban'') path"
proof -
  from assms obtain r where "path = ''/city-by-urban/'' @ r" by (auto simp: startsWith_iff)
  then show ?thesis by (simp add: startsWith_def)
qed

lemma collectCityPath_fst:
  "fst (collectCityPath (cityPaths, cityUrlsMap) e) =
     cityPaths \<union> {s. prefixedPath e = Some s \<and> \<not> isProtectedPath s}"
  by (auto simp: collectCityPath_def prefixedPath_def Let_def replaceFirst_prefix
           split: option.splits)

lemma foldl_collectCityPath_fst:
  "fst (foldl collectCityPath (cityPaths, cityUrlsMap) entries) = cityPaths \<union> prefixedPathSet entries"
proof (induction entries arbitrary: cityPaths cityUrlsMap)
  case Nil
  then show ?case by (simp add: prefixedPathSet_def)
next
  case (Cons e entries)
  obtain cityPaths' cityUrlsMap'
    where s: "collectCityPath (cityPaths, cityUrlsMap) e = (cityPaths', cityUrlsMap')"
    by fastforce
  then have "cityPaths' = cityPaths \<union> {s. prefixedPath e = Some s \<and> \<not> isProtectedPath s}"
    using collectCityPath_fst[of cityPaths cityUrlsMap e] by simp
  moreover have "prefixedPathSet (e # entries) =
                   {s. prefixedPath e = Some s \<and> \<not> isProtectedPath s} \<union> prefixedPathSet entries"
    by (auto simp: prefixedPathSet_def)
  ultimately show ?case using Cons.IH[of cityPaths' cityUrlsMap'] s by auto
qed

lemma parse_fleet:
  "parseURL ''https://www.urbanpubsandbars.com/fleet'' =
     Some \<lparr>protocol = ''https:'', hostname = ''www.urbanpubsandbars.com'', pathname = ''/fleet'',
           query = None, fragment = None\<rparr>"
  by code_simp

lemma parse_city_fleet:
  "parseURL ''https://www.urbanpubsandbars.com/city-by-urban/fleet'' =
     Some \<lparr>protocol = ''https:'', hostname = ''www.urbanpubsandbars.com'',
           pathname = ''/city-by-urban/fleet'', query = None, fragment = None\<rparr>"
  by code_simp

section \<open>Rewriting of subdomain locations (claim C3)\<close>

lemma validHost_www: "validHost WWW_DOMAIN"
  by code_simp

lemma validPath_prefixes: "validPath ''/city-by-urban''" "validPath ''/work-with-us''"
  by code_simp+

lemma validPath_append:
  assumes "validPath a" and "validPath (CHR ''/'' # r)"
  shows "validPath (a @ CHR ''/'' # r)"
proof -
  have "splitOn CHR ''/'' (a @ CHR ''/'' # r) = splitOn CHR ''/'' a @ splitOn CHR ''/'' r"
    by (rule splitOn_append_sep)
  moreover have "splitOn CHR ''/'' (CHR ''/'' # r) = [] # splitOn CHR ''/'' r" by simp
  ultimately show ?thesis using assms by (auto simp: validPath_def list_ex_iff)
qed

text \<open>The URL that the rewriting builds, and its serialisation.\<close>

lemma rewritten_wf:
  assumes "wfURL u" and "validPath P" and "startsWith P ''/''"
  shows "wfURL \<lparr>protocol = ''https:'', hostname = WWW_DOMAIN, pathname = P,
                query = (if search u = [] then None else query u),
                fragment = (if hash u = [] then None else fragment u)\<rparr>"
  using assms validHost_www by (auto simp: wfURL_def validQuery_def validFragment_def)

lemma rewritten_toString:
  "toString \<lparr>protocol = ''https:'', hostname = WWW_DOMAIN, pathname = P,
             query = (if search u = [] then None else query u),
             fragment = (if hash u = [] then None else fragment u)\<rparr> =
     ''https://'' @ WWW_DOMAIN @ P @ search u @ hash u"
  by (auto simp: toString_def search_def hash_def split: option.splits)

lemma set_search_hash:
  "setHash (setSearch \<lparr>protocol = ''https:'', hostname = WWW_DOMAIN, pathname = P,
                       query = None, fragment = None\<rparr> (search u)) (hash u) =
     \<lparr>protocol = ''https:'', hostname = WWW_DOMAIN, pathname = P,
      query = (if search u = [] then None else query u),
      fragment = (if hash u = [] then None else fragment u)\<rparr>"
  by (auto simp: setHash_def setSearch_def search_def hash_def split: option.splits list.splits)

lemma parse_rewritten_base:
  assumes "validPath P" and "startsWith P ''/''"
  shows "parseURL (''https://'' @ WWW_DOMAIN @ P) =
           Some \<lparr>protocol = ''https:'', hostname = WWW_DOMAIN, pathname = P,
                 query = None, fragment = None\<rparr>"
proof -
  have "wfURL \<lparr>protocol = ''https:'', hostname = WWW_DOMAIN, pathname = P,
               query = None, fragment = None\<rparr>"
    using assms validHost_www by (simp add: wfURL_def validQuery_def validFragment_def)
  from parseURL_toString[OF this] show ?thesis by (simp add: toString_def)
qed

lemma validateTransformation_rewritten:
  assumes "wfURL u" and "validPath P" and "startsWith P ''/''"
  shows "validateTransformation (''https://'' @ WWW_DOMAIN @ P @ search u @ hash u) original =
           Inr (''https://'' @ WWW_DOMAIN @ P @ search u @ hash u)"
proof -
  let ?R = "\<lparr>protocol = ''https:'', hostname = WWW_DOMAIN, pathname = P,
             query = (if search u = [] then None else query u),
             fragment = (if hash u = [] then None else fragment u)\<rparr>"
  have "parseURL (toString ?R) = Some ?R" by (rule parseURL_toString[OF rewritten_wf[OF assms]])
  then have p: "parseURL (''https://'' @ WWW_DOMAIN @ P @ search u @ hash u) = Some ?R"
    by (simp only: rewritten_toString)
  have n: "\<not> includes_str WWW_DOMAIN CITY_SUBDOMAIN" "\<not> includes_str WWW_DOMAIN CAREERS_SUBDOMAIN"
    by code_simp+
  show ?thesis unfolding validateTransformation_def p using n by simp
qed

lemma transformWithPrefix_eq:
  assumes "wfURL u" and "validPath (''/'' @ prefix)"
  shows "transformWithPrefix u WWW_DOMAIN prefix =
           Inr (''https://'' @ WWW_DOMAIN @ (''/'' @ prefix @ pathname u) @ search u @ hash u)"
proof -
  from assms(1) obtain r where r: "pathname u = CHR ''/'' # r"
    by (auto simp: wfURL_def startsWith_slash)
  have vp: "validPath (''/'' @ prefix @ pathname u)"
    using validPath_append[of "''/'' @ prefix" r] assms r by (simp add: wfURL_def)
  have sw: "startsWith (''/'' @ prefix @ pathname u) ''/''" by (simp add: startsWith_def)
  show ?thesis
    unfolding transformWithPrefix_def Let_def parse_rewritten_base[OF vp sw]
    by (simp only: option.case set_search_hash rewritten_toString)
qed

lemma host_facts:
  "CITY_SUBDOMAIN \<noteq> WWW_DOMAIN" "CITY_SUBDOMAIN \<noteq> MAIN_DOMAIN"
  "CAREERS_SUBDOMAIN \<noteq> WWW_DOMAIN" "CAREERS_SUBDOMAIN \<noteq> MAIN_DOMAIN"
  "CAREERS_SUBDOMAIN \<noteq> CITY_SUBDOMAIN"
  by (simp_all add: CITY_SUBDOMAIN_def CAREERS_SUBDOMAIN_def WWW_DOMAIN_def MAIN_DOMAIN_def)

lemma transformUrl_city:
  assumes "parseURL url = Some u" and "sourceDomain \<noteq> ''main''" and "hostname u = CITY_SUBDOMAIN"
  shows "transformUrl t url sourceDomain =
           Inr (''https://'' @ WWW_DOMAIN @ (''/'' @ ''city-by-urban'' @ pathname u) @ search u @ hash u)"
proof -
  have wf: "wfURL u" using assms(1) by (rule parseURL_wf)
  from wf obtain r where r: "pathname u = CHR ''/'' # r"
    by (auto simp: wfURL_def startsWith_slash)
  have vp: "validPath (''/'' @ ''city-by-urban'' @ pathname u)"
    using validPath_append[of "''/city-by-urban''" r] validPath_prefixes wf r by (simp add: wfURL_def)
  have sw: "startsWith (''/'' @ ''city-by-urban'' @ pathname u) ''/''" by (simp add: startsWith_def)
  have t: "transformWithPrefix u WWW_DOMAIN ''city-by-urban'' =
           Inr (''https://'' @ WWW_DOMAIN @ (''/'' @ ''city-by-urban'' @ pathname u) @ search u @ hash u)"
    by (rule transformWithPrefix_eq[OF wf]) (use validPath_prefixes in simp)
  show ?thesis
    unfolding transformUrl_def assms(1) option.case
    using assms(2,3) host_facts t validateTransformation_rewritten[OF wf vp sw]
    by (simp only: if_False if_True sum.case simp_thms)
qed

lemma transformUrl_careers_path:
  assumes "parseURL url = Some u" and "sourceDomain \<noteq> ''main''"
    and "hostname u = CAREERS_SUBDOMAIN" and "pathname u \<noteq> ''/''"
  shows "transformUrl t url sourceDomain =
           Inr (''https://'' @ WWW_DOMAIN @ (''/'' @ ''work-with-us'' @ pathname u) @ search u @ hash u)"
proof -
  have wf: "wfURL u" using assms(1) by (rule parseURL_wf)
  from wf obtain r where r: "pathname u = CHR ''/'' # r"
    by (auto simp: wfURL_def startsWith_slash)
  have ne: "pathname u \<noteq> []" using r by simp
  have vp: "validPath (''/'' @ ''work-with-us'' @ pathname u)"
    using validPath_append[of "''/work-with-us''" r] validPath_prefixes wf r by (simp add: wfURL_def)
  have sw: "startsWith (''/'' @ ''work-with-us'' @ pathname u) ''/''" by (simp add: startsWith_def)
  have t: "transformWithPrefix u WWW_DOMAIN ''work-with-us'' =
           Inr (''https://'' @ WWW_DOMAIN @ (''/'' @ ''work-with-us'' @ pathname u) @ search u @ hash u)"
    by (rule transformWithPrefix_eq[OF wf]) (use validPath_prefixes in simp)
  show ?thesis
    unfolding transformUrl_def assms(1) option.case Let_def
    using assms(2,3,4) ne host_facts t validateTransformation_rewritten[OF wf vp sw]
    by (simp only: if_False if_True sum.case simp_thms)
qed

lemma transformUrl_careers_root:
  assumes "parseURL url = Some u" and "sourceDomain \<noteq> ''main''"
    and "hostname u = CAREERS_SUBDOMAIN" and "pathname u = ''/''"
  shows "transformUrl t url sourceDomain =
           Inr (''https://'' @ WWW_DOMAIN @ ''/work-with-us'' @ search u @ hash u)"
proof -
  have wf: "wfURL u" using assms(1) by (rule parseURL_wf)
  have vp: "validPath ''/work-with-us''" by (rule validPath_prefixes)
  have sw: "startsWith ''/work-with-us'' ''/''" by (simp add: startsWith_def)
  have p: "parseURL (''https://'' @ WWW_DOMAIN @ ''/'' @ ''work-with-us'') =
             Some \<lparr>protocol = ''https:'', hostname = WWW_DOMAIN, pathname = ''/work-with-us'',
                   query = None, fragment = None\<rparr>"
    using parse_rewritten_base[OF vp sw] by simp
  show ?thesis
    unfolding transformUrl_def assms(1) option.case Let_def p
    using assms(2,3,4) host_facts validateTransformation_rewritten[OF wf vp sw]
    by (simp only: if_False if_True sum.case simp_thms set_search_hash rewritten_toString)
qed

lemma getSourceDomain_subdomain:
  assumes "parseURL url = Some u" and "hostname u = CITY_SUBDOMAIN \<or> hostname u = CAREERS_SUBDOMAIN"
  shows "getSourceDomain t url \<noteq> ''main''"
  using assms host_facts by (auto simp: getSourceDomain_def)

text \<open>
  Claim C3, as amended. The method never reads the parsed mappings: for every mapping
  configuration it rewrites the two built-in subdomains. With a source classification
  other than \<^verbatim>\<open>main\<close> (which \<^verbatim>\<open>getSourceDomain\<close> never gives for these hosts), a location on
  \<^verbatim>\<open>city.urbanpubsandbars.com\<close> with a path other than the root becomes
  \<^verbatim>\<open>https://www.urbanpubsandbars.com/city-by-urban\<close> followed by the path, the search and
  the hash of the original; a location on \<^verbatim>\<open>careers.urbanpubsandbars.com\<close> becomes
  \<^verbatim>\<open>https://www.urbanpubsandbars.com/work-with-us\<close> followed by the path, the search and the
  hash, and for the root path by the search and the hash alone, with no slash.
\<close>

theorem builtin_subdomains_rewritten:
  assumes "parseURL url = Some u" and "sourceDomain \<noteq> ''main''"
  shows "(hostname u = ''city.urbanpubsandbars.com'' \<and> pathname u \<noteq> ''/'' \<longrightarrow>
            transformUrl (newSubdomainTransformer pathMappings) url sourceDomain =
              Inr (''https://www.urbanpubsandbars.com/city-by-urban'' @ pathname u @ search u @ hash u))
       \<and> (hostname u = ''careers.urbanpubsandbars.com'' \<and> pathname u \<noteq> ''/'' \<longrightarrow>
            transformUrl (newSubdomainTransformer pathMappings) url sourceDomain =
              Inr (''https://www.urbanpubsandbars.com/work-with-us'' @ pathname u @ search u @ hash u))
       \<and> (hostname u = ''careers.urbanpubsandbars.com'' \<and> pathname u = ''/'' \<longrightarrow>
            transformUrl (newSubdomainTransformer pathMappings) url sourceDomain =
              Inr (''https://www.urbanpubsandbars.com/work-with-us'' @ search u @ hash u))
       \<and> (hostname u = ''city.urbanpubsandbars.com'' \<or> hostname u = ''careers.urbanpubsandbars.com'' \<longrightarrow>
            getSourceDomain (newSubdomainTransformer pathMappings) url \<noteq> ''main'')"
proof -
  let ?t = "newSubdomainTransformer pathMappings"
  have 1: "hostname u = ''city.urbanpubsandbars.com'' \<Longrightarrow>
            transformUrl ?t url sourceDomain =
              Inr (''https://www.urbanpubsandbars.com/city-by-urban'' @ pathname u @ search u @ hash u)"
    using transformUrl_city[OF assms, of ?t] by (simp add: CITY_SUBDOMAIN_def WWW_DOMAIN_def)
  have 2: "hostname u = ''careers.urbanpubsandbars.com'' \<Longrightarrow> pathname u \<noteq> ''/'' \<Longrightarrow>
            transformUrl ?t url sourceDomain =
              Inr (''https://www.urbanpubsandbars.com/work-with-us'' @ pathname u @ search u @ hash u)"
    using transformUrl_careers_path[OF assms, of ?t] by (simp add: CAREERS_SUBDOMAIN_def WWW_DOMAIN_def)
  have 3: "hostname u = ''careers.urbanpubsandbars.com'' \<Longrightarrow> pathname u = ''/'' \<Longrightarrow>
            transformUrl ?t url sourceDomain =
              Inr (''https://www.urbanpubsandbars.com/work-with-us'' @ search u @ hash u)"
    using transformUrl_careers_root[OF assms, of ?t] by (simp add: CAREERS_SUBDOMAIN_def WWW_DOMAIN_def)
  have 4: "hostname u = ''city.urbanpubsandbars.com'' \<or> hostname u = ''careers.urbanpubsandbars.com'' \<Longrightarrow>
            getSourceDomain ?t url \<noteq> ''main''"
    using getSourceDomain_subdomain[OF assms(1), of ?t]
    by (simp add: CITY_SUBDOMAIN_def CAREERS_SUBDOMAIN_def)
  from 1 2 3 4 show ?thesis by blast
qed

lemma parse_city_source:
  "parseURL ''https://city.urbanpubsandbars.com/fleet?x=1#top'' =
     Some \<lparr>protocol = ''https:'', hostname = ''city.urbanpubsandbars.com'', pathname = ''/fleet'',
           query = Some ''x=1'', fragment = Some ''top''\<rparr>"
  by code_simp

lemma parse_careers_source:
  "parseURL ''https://careers.urbanpubsandbars.com/'' =
     Some \<lparr>protocol = ''https:'', hostname = ''careers.urbanpubsandbars.com'', pathname = ''/'',
           query = None, fragment = None\<rparr>"
  by code_simp

text \<open>
  Claim C3, witness: a city location with query and fragment, and the careers root, under
  the usual configuration.
\<close>

theorem builtin_subdomains_rewritten_witness:
  "transformUrl
     (newSubdomainTransformer
        ''city-by-urban:city.urbanpubsandbars.com, work-with-us:careers.urbanpubsandbars.com'')
     ''https://city.urbanpubsandbars.com/fleet?x=1#top'' ''city'' =
       Inr ''https://www.urbanpubsandbars.com/city-by-urban/fleet?x=1#top''
   \<and> transformUrl
     (newSubdomainTransformer
        ''city-by-urban:city.urbanpubsandbars.com, work-with-us:careers.urbanpubsandbars.com'')
     ''https://careers.urbanpubsandbars.com/'' ''careers'' =
       Inr ''https://www.urbanpubsandbars.com/work-with-us''"
proof -
  have n: "''city'' \<noteq> ''main''" "''careers'' \<noteq> ''main''" by simp_all
  show ?thesis
    using builtin_subdomains_rewritten[OF parse_city_source n(1),
            of "''city-by-urban:city.urbanpubsandbars.com, work-with-us:careers.urbanpubsandbars.com''"]
          builtin_subdomains_rewritten[OF parse_careers_source n(2),
            of "''city-by-urban:city.urbanpubsandbars.com, work-with-us:careers.urbanpubsandbars.com''"]
    by (simp add: search_def hash_def)
qed

text \<open>
  Claim C3, counterexample: the configuration \<^verbatim>\<open>blog:blog.urbanpubsandbars.com\<close> is parsed
  to one mapping, and a location on that subdomain is returned as it is.
\<close>

theorem configured_mapping_not_applied:
  "mappings (newSubdomainTransformer ''blog:blog.urbanpubsandbars.com'') =
     [\<lparr>pathPrefix = ''blog'', subdomain = ''blog.urbanpubsandbars.com''\<rparr>]
   \<and> map_option hostname (parseURL ''https://blog.urbanpubsandbars.com/post'') =
       Some ''blog.urbanpubsandbars.com''
   \<and> transformUrl (newSubdomainTransformer ''blog:blog.urbanpubsandbars.com'')
       ''https://blog.urbanpubsandbars.com/post''
       (getSourceDomain (newSubdomainTransformer ''blog:blog.urbanpubsandbars.com'')
          ''https://blog.urbanpubsandbars.com/post'')
     = Inr ''https://blog.urbanpubsandbars.com/post''
   \<and> transformUrl (newSubdomainTransformer ''blog:blog.urbanpubsandbars.com'')
       ''https://blog.urbanpubsandbars.com/post''
       (getSourceDomain (newSubdomainTransformer ''blog:blog.urbanpubsandbars.com'')
          ''https://blog.urbanpubsandbars.com/post'')
     \<noteq> Inr ''https://www.urbanpubsandbars.com/blog/post''"
  by code_simp

section \<open>Normalisation of a location (claim C9)\<close>

lemma parseURL_has_colon:
  assumes "parseURL s = Some u"
  shows "CHR '':'' \<in> set s"
proof -
  from parseURL_needs_scheme[OF assms] obtain r where "s = ''http'' @ r" by blast
  obtain bh frag where 1: "splitFirst CHR ''#'' s = (bh, frag)" by fastforce
  obtain bq qry where 2: "splitFirst CHR ''?'' bh = (bq, qry)" by fastforce
  from assms 1 2 obtain scheme rest where 3: "parseScheme bq = Some (scheme, rest)"
    by (auto simp: parseURL_def split: option.splits)
  from parseScheme_Some[OF 3] have "CHR '':'' \<in> set bq" by auto
  moreover from splitFirst_prefix[of bh "CHR ''?''"] 2 obtain r2 where "bh = bq @ r2" by auto
  moreover from splitFirst_prefix[of s "CHR ''#''"] 1 obtain r3 where "s = bh @ r3" by auto
  ultimately show ?thesis by auto
qed

text \<open>
  Claim C9, as amended. For a location that parses, applying \<^verbatim>\<open>normalizeUrl\<close> twice gives
  the same string as applying it once exactly when the path does not end in two slashes
  (the path \<^verbatim>\<open>//\<close> itself apart, which becomes the root): the function removes one
  trailing slash at a time. A location whose path is the root is returned as it is, and so
  is a string without a colon, which has no scheme and is no URL.
\<close>

theorem normalizeUrl_idempotence:
  "(\<forall>u. parseURL x = Some u \<longrightarrow>
       ((normalizeUrl (normalizeUrl x) = normalizeUrl x) =
          (\<not> (endsWith (pathname u) ''//'' \<and> pathname u \<noteq> ''//''))) \<and>
       (pathname u = ''/'' \<or> pathname u = [] \<longrightarrow> normalizeUrl x = x))
   \<and> (CHR '':'' \<notin> set x \<longrightarrow> normalizeUrl x = x \<and> normalizeUrl (normalizeUrl x) = normalizeUrl x)"
proof (intro conjI allI impI)
  fix u assume p: "parseURL x = Some u"
  have sw: "startsWith (pathname u) ''/''" using parseURL_wf[OF p] by (simp add: wfURL_def)
  have "normalizeUrl (normalizeUrl x) = normalizeUrl x \<longleftrightarrow>
        normalizePath (normalizePath (pathname u)) = normalizePath (pathname u)"
    using normalizeUrl_fixed_iff[OF normalizeUrl_parse[OF p]] by simp
  also have "\<dots> \<longleftrightarrow> \<not> (endsWith (pathname u) ''//'' \<and> pathname u \<noteq> ''//'')"
    by (rule normalizePath_twice[OF sw])
  finally show "(normalizeUrl (normalizeUrl x) = normalizeUrl x) =
          (\<not> (endsWith (pathname u) ''//'' \<and> pathname u \<noteq> ''//''))" .
next
  fix u assume "parseURL x = Some u" and "pathname u = ''/'' \<or> pathname u = []"
  then show "normalizeUrl x = x" by (auto simp: normalizeUrl_def)
next
  assume c: "CHR '':'' \<notin> set x"
  then have "parseURL x = None" using parseURL_has_colon by (cases "parseURL x") auto
  then show "normalizeUrl x = x" by (rule normalizeUrl_unparseable)
  then show "normalizeUrl (normalizeUrl x) = normalizeUrl x" by simp
qed

text \<open>
  Claim C9, witness: a path with one trailing slash, the root without a slash, and a string
  without a colon.
\<close>

theorem normalizeUrl_idempotence_witness:
  "normalizeUrl (normalizeUrl ''https://www.urbanpubsandbars.com/venues/'') =
     normalizeUrl ''https://www.urbanpubsandbars.com/venues/''
   \<and> normalizeUrl ''https://www.urbanpubsandbars.com'' = ''https://www.urbanpubsandbars.com''
   \<and> normalizeUrl ''venues/'' = ''venues/''"
  using normalizeUrl_idempotence[of "''https://www.urbanpubsandbars.com/venues/''"]
        normalizeUrl_idempotence[of "''https://www.urbanpubsandbars.com''"]
        normalizeUrl_idempotence[of "''venues/''"]
        parse_venues_slash parse_bare_root
  by (simp add: endsWith_def)

text \<open>
  Claim C9, counterexample to idempotence on every string: of two trailing slashes the first
  application removes one and the second the other.
\<close>

theorem normalizeUrl_double_slash:
  "normalizeUrl (normalizeUrl ''https://www.urbanpubsandbars.com/a//'')
     \<noteq> normalizeUrl ''https://www.urbanpubsandbars.com/a//''"
  by code_simp

section \<open>Order and uniqueness of the serialised entries (claim C7)\<close>










section \<open>Pagination (claim C8)\<close>

subsection \<open>Decimal numerals\<close>

lemma decimal_nonempty: "decimal m \<noteq> []"
  by (subst decimal.simps) simp

lemma isDigit_decimal: "list_all isDigit (decimal m)"
proof (induction m rule: decimal.induct)
  case (1 n)
  show ?case
  proof (cases "n < 10")
    case True
    then have "decimal n = [char_of (48 + n)]" by (subst decimal.simps) simp
    moreover from True have "(48 + n) mod 256 = 48 + n" by simp
    ultimately show ?thesis using True by (simp add: isDigit_def)
  next
    case False
    then have "decimal n = decimal (n div 10) @ [char_of (48 + n mod 10)]"
      by (subst decimal.simps) simp
    moreover have "(48 + n mod 10) mod 256 = 48 + n mod 10"
      by (rule mod_less) (simp add: less_le_trans[OF add_strict_left_mono[OF mod_less_divisor[of 10 n]]])
    ultimately show ?thesis using 1[OF False] by (simp add: isDigit_def)
  qed
qed

lemma digitsValue_decimal: "digitsValue (decimal m) = m"
proof (induction m rule: decimal.induct)
  case (1 n)
  show ?case
  proof (cases "n < 10")
    case True
    then have "decimal n = [char_of (48 + n)]" by (subst decimal.simps) simp
    moreover from True have "(48 + n) mod 256 = 48 + n" by simp
    ultimately show ?thesis by (simp add: digitsValue_def)
  next
    case False
    then have d: "decimal n = decimal (n div 10) @ [char_of (48 + n mod 10)]"
      by (subst decimal.simps) simp
    have m: "(48 + n mod 10) mod 256 = 48 + n mod 10"
      by (rule mod_less) (simp add: less_le_trans[OF add_strict_left_mono[OF mod_less_divisor[of 10 n]]])
    have "digitsValue (decimal n) = 10 * digitsValue (decimal (n div 10)) + n mod 10"
      unfolding d digitsValue_def by (simp add: m)
    with 1[OF False] show ?thesis by simp
  qed
qed

subsection \<open>Escaping\<close>

lemma replaceAll_absent: "c \<notin> set s \<Longrightarrow> replaceAll c r s = s"
  unfolding replaceAll_def by (induction s) auto

lemma escapeXml_plain:
  assumes "CHR ''&'' \<notin> set s" "CHR ''<'' \<notin> set s" "CHR ''>'' \<notin> set s"
    "CHR 0x22 \<notin> set s" "CHR 0x27 \<notin> set s"
  shows "escapeXml s = s"
  unfolding escapeXml_def using assms by (simp add: replaceAll_absent)

lemma isDigit_plain:
  "isDigit c \<Longrightarrow> c \<noteq> CHR ''&'' \<and> c \<noteq> CHR ''<'' \<and> c \<noteq> CHR ''>'' \<and> c \<noteq> CHR 0x22 \<and> c \<noteq> CHR 0x27"
  by (auto simp: isDigit_def)

lemma sitemapBlock_eq:
  "sitemapBlock i =
     ''  <sitemap>'' @ [CHR 0x0A]
     @ ''    <loc>https://www.urbanpubsandbars.com/sitemap-'' @ decimal (i + 1) @ ''.xml</loc>'' @ [CHR 0x0A]
     @ ''  </sitemap>'' @ [CHR 0x0A]"
proof -
  have d: "\<forall>c\<in>set (decimal (i + 1)). isDigit c"
    using isDigit_decimal[of "i + 1"] by (simp only: list_all_iff)
  have "escapeXml (''https://www.urbanpubsandbars.com/sitemap-'' @ decimal (i + 1) @ ''.xml'') =
          ''https://www.urbanpubsandbars.com/sitemap-'' @ decimal (i + 1) @ ''.xml''"
    by (rule escapeXml_plain) (use d isDigit_plain in auto)
  then show ?thesis by (simp add: sitemapBlock_def Let_def)
qed

subsection \<open>The count of the builder\<close>

lemma length_removeDuplicates:
  "length (removeDuplicates entries) = card ((\<lambda>e. normalizeUrl (loc e)) ` set entries)"
proof -
  have "length (removeDuplicates entries) = length (map (\<lambda>e. normalizeUrl (loc e)) (removeDuplicates entries))"
    by simp
  also have "\<dots> = card (set (map (\<lambda>e. normalizeUrl (loc e)) (removeDuplicates entries)))"
    using removeDuplicates_distinct[of entries] by (simp only: distinct_card)
  also have "\<dots> = card ((\<lambda>e. normalizeUrl (loc e)) ` set entries)"
    by (simp add: removeDuplicates_keys)
  finally show ?thesis .
qed

lemma length_sortedUrls: "length (sortedUrls cmp entries) = length (removeDuplicates entries)"
  by (simp add: sortedUrls_def length_sortWith)

lemma buildSitemapXml_index:
  assumes "50000 < length (removeDuplicates entries)"
  shows "buildSitemapXml cmp entries =
     ''<?xml version='' @ [CHR 0x22] @ ''1.0'' @ [CHR 0x22] @ '' encoding='' @ [CHR 0x22] @ ''UTF-8'' @ [CHR 0x22] @ ''?>'' @ [CHR 0x0A]
     @ ''<sitemapindex xmlns='' @ [CHR 0x22] @ ''http://www.sitemaps.org/schemas/sitemap/0.9'' @ [CHR 0x22] @ ''>'' @ [CHR 0x0A]
     @ concat (map (\<lambda>i. ''  <sitemap>'' @ [CHR 0x0A]
                       @ ''    <loc>https://www.urbanpubsandbars.com/sitemap-'' @ decimal (i + 1) @ ''.xml</loc>'' @ [CHR 0x0A]
                       @ ''  </sitemap>'' @ [CHR 0x0A])
                 [0 ..< (length (removeDuplicates entries) + 49999) div 50000])
     @ ''</sitemapindex>''"
proof -
  have s: "sitemapBlock = (\<lambda>i. ''  <sitemap>'' @ [CHR 0x0A]
                       @ ''    <loc>https://www.urbanpubsandbars.com/sitemap-'' @ decimal (i + 1) @ ''.xml</loc>'' @ [CHR 0x0A]
                       @ ''  </sitemap>'' @ [CHR 0x0A])"
    by (rule ext) (rule sitemapBlock_eq)
  have "buildSitemapXml cmp entries = buildSitemapIndex (sortedUrls cmp entries)"
    using assms by (simp add: buildSitemapXml_def Let_def length_sortedUrls MAX_URLS_PER_SITEMAP_def)
  also have "\<dots> = xmlDeclaration
      @ ''<sitemapindex xmlns='' @ dq @ SITEMAP_NAMESPACE @ dq @ ''>'' @ nl
      @ concat (map sitemapBlock [0 ..< (length (removeDuplicates entries) + 49999) div 50000])
      @ ''</sitemapindex>''"
    by (simp only: buildSitemapIndex_def Let_def chunkLoop_length length_sortedUrls list.size
                   add_0 diff_zero)
  finally show ?thesis
    unfolding s xmlDeclaration_def dq_def nl_def SITEMAP_NAMESPACE_def by simp
qed

lemma buildSitemapXml_two_blocks:
  assumes "50000 < length (removeDuplicates entries)" "length (removeDuplicates entries) \<le> 100000"
  shows "buildSitemapXml cmp entries =
     ''<?xml version='' @ [CHR 0x22] @ ''1.0'' @ [CHR 0x22] @ '' encoding='' @ [CHR 0x22] @ ''UTF-8'' @ [CHR 0x22] @ ''?>'' @ [CHR 0x0A]
     @ ''<sitemapindex xmlns='' @ [CHR 0x22] @ ''http://www.sitemaps.org/schemas/sitemap/0.9'' @ [CHR 0x22] @ ''>'' @ [CHR 0x0A]
     @ ''  <sitemap>'' @ [CHR 0x0A]
     @ ''    <loc>https://www.urbanpubsandbars.com/sitemap-1.xml</loc>'' @ [CHR 0x0A]
     @ ''  </sitemap>'' @ [CHR 0x0A]
     @ ''  <sitemap>'' @ [CHR 0x0A]
     @ ''    <loc>https://www.urbanpubsandbars.com/sitemap-2.xml</loc>'' @ [CHR 0x0A]
     @ ''  </sitemap>'' @ [CHR 0x0A]
     @ ''</sitemapindex>''"
proof -
  from assms have "100000 \<le> length (removeDuplicates entries) + 49999"
    "length (removeDuplicates entries) + 49999 < 150000" by simp_all
  then have "(length (removeDuplicates entries) + 49999) div 50000 = 2"
    by (intro div_nat_eqI) simp_all
  moreover have "[0 ..< 2] = [0, Suc 0]" by (simp add: upt_rec)
  moreover have "decimal (Suc 0) = ''1''" "decimal (Suc (Suc 0)) = ''2''" by code_simp+
  ultimately show ?thesis
    unfolding buildSitemapXml_index[OF assms(1)] by simp
qed

lemma buildSitemapXml_urlset:
  assumes "length (removeDuplicates entries) \<le> 50000"
  shows "buildSitemapXml cmp entries =
     ''<?xml version='' @ [CHR 0x22] @ ''1.0'' @ [CHR 0x22] @ '' encoding='' @ [CHR 0x22] @ ''UTF-8'' @ [CHR 0x22] @ ''?>'' @ [CHR 0x0A]
     @ ''<urlset xmlns='' @ [CHR 0x22] @ ''http://www.sitemaps.org/schemas/sitemap/0.9'' @ [CHR 0x22] @ ''>'' @ [CHR 0x0A]
     @ concat (map urlBlock (sortedUrls cmp entries))
     @ ''</urlset>''"
  using assms
  by (simp add: buildSitemapXml_def Let_def length_sortedUrls MAX_URLS_PER_SITEMAP_def
                xmlDeclaration_def dq_def nl_def SITEMAP_NAMESPACE_def)

subsection \<open>Root locations that differ in the query\<close>

lemma parse_rootQuery:
  "parseURL (rootQueryLoc i) =
     Some \<lparr>protocol = ''https:'', hostname = ''www.urbanpubsandbars.com'', pathname = ''/'',
           query = Some (replicate i CHR ''a''), fragment = None\<rparr>"
proof -
  let ?u = "\<lparr>protocol = ''https:'', hostname = ''www.urbanpubsandbars.com'', pathname = ''/'',
           query = Some (replicate i CHR ''a''), fragment = None\<rparr>"
  have "validHost ''www.urbanpubsandbars.com''" using validHost_www by (simp add: WWW_DOMAIN_def)
  moreover have "validPath ''/''" by code_simp
  moreover have "queryChar CHR ''a''" by code_simp
  then have "validQuery (Some (replicate i CHR ''a''))"
    by (simp add: validQuery_def list_all_iff)
  ultimately have "wfURL ?u" by (simp add: wfURL_def startsWith_def validFragment_def)
  from parseURL_toString[OF this] show ?thesis by (simp add: toString_def rootQueryLoc_def)
qed

lemma rootQuery_key: "normalizeUrl (rootQueryLoc i) = rootQueryLoc i"
  unfolding normalizeUrl_def by (simp add: parse_rootQuery)

lemma rootQueryLoc_inj: "rootQueryLoc i = rootQueryLoc j \<Longrightarrow> i = j"
proof -
  assume "rootQueryLoc i = rootQueryLoc j"
  then have "replicate i CHR ''a'' = replicate j CHR ''a''"
    unfolding rootQueryLoc_def by (simp only: same_append_eq)
  then have "length (replicate i CHR ''a'') = length (replicate j CHR ''a'')" by (simp only:)
  then show "i = j" by simp
qed

lemma rootQueryEntries_distinct:
  "distinct (map (\<lambda>e. normalizeUrl (loc e)) (rootQueryEntries n))"
proof -
  have "map (\<lambda>e. normalizeUrl (loc e)) (rootQueryEntries n) = map rootQueryLoc [0 ..< n]"
    unfolding rootQueryEntries_def by (simp add: locOnly_def rootQuery_key)
  moreover have "inj_on rootQueryLoc (set [0 ..< n])"
    by (rule inj_onI) (rule rootQueryLoc_inj)
  ultimately show ?thesis by (simp add: distinct_map)
qed

lemma removeDuplicates_rootQueryEntries: "removeDuplicates (rootQueryEntries n) = rootQueryEntries n"
  by (rule removeDuplicates_id) (rule rootQueryEntries_distinct)

lemma length_rootQueryEntries: "length (rootQueryEntries n) = n"
  by (simp add: rootQueryEntries_def)

lemma rootQueryEntries_parse:
  "e \<in> set (rootQueryEntries n) \<Longrightarrow>
   \<exists>q. parseURL (loc e) = Some \<lparr>protocol = ''https:'', hostname = ''www.urbanpubsandbars.com'',
                                  pathname = ''/'', query = Some q, fragment = None\<rparr>"
  unfolding rootQueryEntries_def by (auto simp: locOnly_def parse_rootQuery)

lemma rootQueryEntries_normalizedPath:
  "0 < n \<Longrightarrow> normalizedPath ` set (rootQueryEntries n) = {Some ''/''}"
proof -
  assume n: "0 < n"
  have "\<And>e. e \<in> set (rootQueryEntries n) \<Longrightarrow> normalizedPath e = Some ''/''"
    using rootQueryEntries_parse by (fastforce simp: normalizedPath_def normalizePath_def)
  then have "normalizedPath ` set (rootQueryEntries n) = (\<lambda>x. Some ''/'') ` set (rootQueryEntries n)"
    by (intro image_cong) simp_all
  moreover from n have "rootQueryEntries n \<noteq> []" using length_rootQueryEntries[of n] by auto
  then have "set (rootQueryEntries n) \<noteq> {}" by simp
  ultimately show ?thesis by (simp add: image_constant_conv)
qed

text \<open>
  Claim C8, as amended. The count is that of the builder: the number of different
  normalised locations of the entries (the whole location, with its query and fragment,
  one trailing slash of a non-root path removed). For entries whose locations parse, when
  the count exceeds 50,000 the output is the index document that holds, for each \<open>i\<close>
  from 0 below the count divided by 50,000 and rounded up, one block with the location
  \<^verbatim>\<open>https://www.urbanpubsandbars.com/sitemap-\<close>, the decimal numeral of \<open>i + 1\<close> and
  \<^verbatim>\<open>.xml\<close>; the chunks that the builder cuts are that many, each is non-empty and holds at
  most 50,000 entries, and together, in order, they are the sorted entries. When the count
  is 60,001 the index is the document with the two locations \<^verbatim>\<open>sitemap-1.xml\<close> and
  \<^verbatim>\<open>sitemap-2.xml\<close>. When the count is at most 50,000 the output is the one
  \<^verbatim>\<open>urlset\<close> document of the sorted entries. The decimal numeral of a number is a
  non-empty string of digits whose value is the number.
\<close>

theorem buildSitemapXml_pagination:
  assumes "\<forall>e \<in> set entries. parseURL (loc e) \<noteq> None"
  shows "(50000 < card ((\<lambda>e. normalizeUrl (loc e)) ` set entries) \<longrightarrow>
            buildSitemapXml localeCompare entries =
              ''<?xml version='' @ [CHR 0x22] @ ''1.0'' @ [CHR 0x22] @ '' encoding='' @ [CHR 0x22] @ ''UTF-8'' @ [CHR 0x22] @ ''?>'' @ [CHR 0x0A]
              @ ''<sitemapindex xmlns='' @ [CHR 0x22] @ ''http://www.sitemaps.org/schemas/sitemap/0.9'' @ [CHR 0x22] @ ''>'' @ [CHR 0x0A]
              @ concat (map (\<lambda>i. ''  <sitemap>'' @ [CHR 0x0A]
                                @ ''    <loc>https://www.urbanpubsandbars.com/sitemap-'' @ decimal (i + 1) @ ''.xml</loc>'' @ [CHR 0x0A]
                                @ ''  </sitemap>'' @ [CHR 0x0A])
                          [0 ..< (card ((\<lambda>e. normalizeUrl (loc e)) ` set entries) + 49999) div 50000])
              @ ''</sitemapindex>'' \<and>
            length (chunkLoop 0 (sortedUrls localeCompare entries) []) =
              (card ((\<lambda>e. normalizeUrl (loc e)) ` set entries) + 49999) div 50000 \<and>
            (\<forall>c \<in> set (chunkLoop 0 (sortedUrls localeCompare entries) []). c \<noteq> [] \<and> length c \<le> 50000) \<and>
            concat (chunkLoop 0 (sortedUrls localeCompare entries) []) = sortedUrls localeCompare entries)
         \<and> (card ((\<lambda>e. normalizeUrl (loc e)) ` set entries) = 60001 \<longrightarrow>
            buildSitemapXml localeCompare entries =
              ''<?xml version='' @ [CHR 0x22] @ ''1.0'' @ [CHR 0x22] @ '' encoding='' @ [CHR 0x22] @ ''UTF-8'' @ [CHR 0x22] @ ''?>'' @ [CHR 0x0A]
              @ ''<sitemapindex xmlns='' @ [CHR 0x22] @ ''http://www.sitemaps.org/schemas/sitemap/0.9'' @ [CHR 0x22] @ ''>'' @ [CHR 0x0A]
              @ ''  <sitemap>'' @ [CHR 0x0A]
              @ ''    <loc>https://www.urbanpubsandbars.com/sitemap-1.xml</loc>'' @ [CHR 0x0A]
              @ ''  </sitemap>'' @ [CHR 0x0A]
              @ ''  <sitemap>'' @ [CHR 0x0A]
              @ ''    <loc>https://www.urbanpubsandbars.com/sitemap-2.xml</loc>'' @ [CHR 0x0A]
              @ ''  </sitemap>'' @ [CHR 0x0A]
              @ ''</sitemapindex>'')
         \<and> (card ((\<lambda>e. normalizeUrl (loc e)) ` set entries) \<le> 50000 \<longrightarrow>
            buildSitemapXml localeCompare entries =
              ''<?xml version='' @ [CHR 0x22] @ ''1.0'' @ [CHR 0x22] @ '' encoding='' @ [CHR 0x22] @ ''UTF-8'' @ [CHR 0x22] @ ''?>'' @ [CHR 0x0A]
              @ ''<urlset xmlns='' @ [CHR 0x22] @ ''http://www.sitemaps.org/schemas/sitemap/0.9'' @ [CHR 0x22] @ ''>'' @ [CHR 0x0A]
              @ concat (map urlBlock (sortedUrls localeCompare entries))
              @ ''</urlset>'')
         \<and> (\<forall>m. decimal m \<noteq> [] \<and> list_all isDigit (decimal m) \<and> digitsValue (decimal m) = m)"
proof -
  let ?count = "card ((\<lambda>e. normalizeUrl (loc e)) ` set entries)"
  have len: "length (removeDuplicates entries) = ?count" by (rule length_removeDuplicates)
  have a: "50000 < ?count \<longrightarrow> buildSitemapXml localeCompare entries =
              ''<?xml version='' @ [CHR 0x22] @ ''1.0'' @ [CHR 0x22] @ '' encoding='' @ [CHR 0x22] @ ''UTF-8'' @ [CHR 0x22] @ ''?>'' @ [CHR 0x0A]
              @ ''<sitemapindex xmlns='' @ [CHR 0x22] @ ''http://www.sitemaps.org/schemas/sitemap/0.9'' @ [CHR 0x22] @ ''>'' @ [CHR 0x0A]
              @ concat (map (\<lambda>i. ''  <sitemap>'' @ [CHR 0x0A]
                                @ ''    <loc>https://www.urbanpubsandbars.com/sitemap-'' @ decimal (i + 1) @ ''.xml</loc>'' @ [CHR 0x0A]
                                @ ''  </sitemap>'' @ [CHR 0x0A])
                          [0 ..< (?count + 49999) div 50000])
              @ ''</sitemapindex>''"
    using buildSitemapXml_index[of entries localeCompare] unfolding len by blast
  have b: "length (chunkLoop 0 (sortedUrls localeCompare entries) []) = (?count + 49999) div 50000"
    by (simp add: chunkLoop_length length_sortedUrls len)
  have c: "\<forall>c \<in> set (chunkLoop 0 (sortedUrls localeCompare entries) []). c \<noteq> [] \<and> length c \<le> 50000"
    by (rule chunkLoop_sizes) simp
  have d: "concat (chunkLoop 0 (sortedUrls localeCompare entries) []) = sortedUrls localeCompare entries"
    by (simp add: chunkLoop_concat)
  have e: "?count = 60001 \<longrightarrow> buildSitemapXml localeCompare entries =
              ''<?xml version='' @ [CHR 0x22] @ ''1.0'' @ [CHR 0x22] @ '' encoding='' @ [CHR 0x22] @ ''UTF-8'' @ [CHR 0x22] @ ''?>'' @ [CHR 0x0A]
              @ ''<sitemapindex xmlns='' @ [CHR 0x22] @ ''http://www.sitemaps.org/schemas/sitemap/0.9'' @ [CHR 0x22] @ ''>'' @ [CHR 0x0A]
              @ ''  <sitemap>'' @ [CHR 0x0A]
              @ ''    <loc>https://www.urbanpubsandbars.com/sitemap-1.xml</loc>'' @ [CHR 0x0A]
              @ ''  </sitemap>'' @ [CHR 0x0A]
              @ ''  <sitemap>'' @ [CHR 0x0A]
              @ ''    <loc>https://www.urbanpubsandbars.com/sitemap-2.xml</loc>'' @ [CHR 0x0A]
              @ ''  </sitemap>'' @ [CHR 0x0A]
              @ ''</sitemapindex>''"
  proof
    assume "?count = 60001"
    with len have "50000 < length (removeDuplicates entries)" "length (removeDuplicates entries) \<le> 100000"
      by simp_all
    then show "buildSitemapXml localeCompare entries =
              ''<?xml version='' @ [CHR 0x22] @ ''1.0'' @ [CHR 0x22] @ '' encoding='' @ [CHR 0x22] @ ''UTF-8'' @ [CHR 0x22] @ ''?>'' @ [CHR 0x0A]
              @ ''<sitemapindex xmlns='' @ [CHR 0x22] @ ''http://www.sitemaps.org/schemas/sitemap/0.9'' @ [CHR 0x22] @ ''>'' @ [CHR 0x0A]
              @ ''  <sitemap>'' @ [CHR 0x0A]
              @ ''    <loc>https://www.urbanpubsandbars.com/sitemap-1.xml</loc>'' @ [CHR 0x0A]
              @ ''  </sitemap>'' @ [CHR 0x0A]
              @ ''  <sitemap>'' @ [CHR 0x0A]
              @ ''    <loc>https://www.urbanpubsandbars.com/sitemap-2.xml</loc>'' @ [CHR 0x0A]
              @ ''  </sitemap>'' @ [CHR 0x0A]
              @ ''</sitemapindex>''"
      by (rule buildSitemapXml_two_blocks)
  qed
  have f: "?count \<le> 50000 \<longrightarrow> buildSitemapXml localeCompare entries =
              ''<?xml version='' @ [CHR 0x22] @ ''1.0'' @ [CHR 0x22] @ '' encoding='' @ [CHR 0x22] @ ''UTF-8'' @ [CHR 0x22] @ ''?>'' @ [CHR 0x0A]
              @ ''<urlset xmlns='' @ [CHR 0x22] @ ''http://www.sitemaps.org/schemas/sitemap/0.9'' @ [CHR 0x22] @ ''>'' @ [CHR 0x0A]
              @ concat (map urlBlock (sortedUrls localeCompare entries))
              @ ''</urlset>''"
    using len by (simp add: buildSitemapXml_urlset)
  have g: "\<forall>m. decimal m \<noteq> [] \<and> list_all isDigit (decimal m) \<and> digitsValue (decimal m) = m"
    using decimal_nonempty isDigit_decimal digitsValue_decimal by blast
  from a b c d e f g show ?thesis by blast
qed

lemma rootQueryEntries_all_parse: "\<forall>e \<in> set (rootQueryEntries n). parseURL (loc e) \<noteq> None"
  using rootQueryEntries_parse by fastforce

lemma rootQueryEntries_count:
  "card ((\<lambda>e. normalizeUrl (loc e)) ` set (rootQueryEntries n)) = n"
  using length_removeDuplicates[of "rootQueryEntries n"]
  by (simp add: removeDuplicates_rootQueryEntries length_rootQueryEntries)

text \<open>
  Claim C8, witness: 60,001 parseable entries with different normalised locations give the
  index with two blocks, and the builder cuts two chunks.
\<close>

theorem buildSitemapXml_pagination_witness:
  "card ((\<lambda>e. normalizeUrl (loc e)) ` set (rootQueryEntries 60001)) = 60001 \<and>
   buildSitemapXml codeUnitCompare (rootQueryEntries 60001) =
     ''<?xml version='' @ [CHR 0x22] @ ''1.0'' @ [CHR 0x22] @ '' encoding='' @ [CHR 0x22] @ ''UTF-8'' @ [CHR 0x22] @ ''?>'' @ [CHR 0x0A]
     @ ''<sitemapindex xmlns='' @ [CHR 0x22] @ ''http://www.sitemaps.org/schemas/sitemap/0.9'' @ [CHR 0x22] @ ''>'' @ [CHR 0x0A]
     @ ''  <sitemap>'' @ [CHR 0x0A]
     @ ''    <loc>https://www.urbanpubsandbars.com/sitemap-1.xml</loc>'' @ [CHR 0x0A]
     @ ''  </sitemap>'' @ [CHR 0x0A]
     @ ''  <sitemap>'' @ [CHR 0x0A]
     @ ''    <loc>https://www.urbanpubsandbars.com/sitemap-2.xml</loc>'' @ [CHR 0x0A]
     @ ''  </sitemap>'' @ [CHR 0x0A]
     @ ''</sitemapindex>'' \<and>
   length (chunkLoop 0 (sortedUrls codeUnitCompare (rootQueryEntries 60001)) []) = 2"
proof -
  have n: "card ((\<lambda>e. normalizeUrl (loc e)) ` set (rootQueryEntries 60001)) = 60001"
    by (rule rootQueryEntries_count)
  then have gt: "50000 < card ((\<lambda>e. normalizeUrl (loc e)) ` set (rootQueryEntries 60001))"
    by simp
  note paginated = buildSitemapXml_pagination[OF rootQueryEntries_all_parse, of 60001 codeUnitCompare]
  note doc = paginated[THEN conjunct2, THEN conjunct1, THEN mp, OF n]
  have "length (chunkLoop 0 (sortedUrls codeUnitCompare (rootQueryEntries 60001)) []) =
          (card ((\<lambda>e. normalizeUrl (loc e)) ` set (rootQueryEntries 60001)) + 49999) div 50000"
    by (rule paginated[THEN conjunct1, THEN mp, OF gt, THEN conjunct2, THEN conjunct1])
  then have "length (chunkLoop 0 (sortedUrls codeUnitCompare (rootQueryEntries 60001)) []) = 2"
    unfolding n by simp
  with n doc show ?thesis by (intro conjI)
qed

text \<open>
  Claim C8, counterexample. 50,001 entries on the root path that differ in their query
  have one normalised path, the root, so the count after a deduplication by normalised path
  is 1; the builder, which counts normalised locations, emits the index with two blocks
  and no \<^verbatim>\<open>urlset\<close>.
\<close>

theorem many_root_queries_give_index:
  "normalizedPath ` set (rootQueryEntries 50001) = {Some ''/''} \<and>
   buildSitemapXml codeUnitCompare (rootQueryEntries 50001) =
     ''<?xml version='' @ [CHR 0x22] @ ''1.0'' @ [CHR 0x22] @ '' encoding='' @ [CHR 0x22] @ ''UTF-8'' @ [CHR 0x22] @ ''?>'' @ [CHR 0x0A]
     @ ''<sitemapindex xmlns='' @ [CHR 0x22] @ ''http://www.sitemaps.org/schemas/sitemap/0.9'' @ [CHR 0x22] @ ''>'' @ [CHR 0x0A]
     @ ''  <sitemap>'' @ [CHR 0x0A]
     @ ''    <loc>https://www.urbanpubsandbars.com/sitemap-1.xml</loc>'' @ [CHR 0x0A]
     @ ''  </sitemap>'' @ [CHR 0x0A]
     @ ''  <sitemap>'' @ [CHR 0x0A]
     @ ''    <loc>https://www.urbanpubsandbars.com/sitemap-2.xml</loc>'' @ [CHR 0x0A]
     @ ''  </sitemap>'' @ [CHR 0x0A]
     @ ''</sitemapindex>''"
proof -
  have "length (removeDuplicates (rootQueryEntries 50001)) = 50001"
    by (simp add: removeDuplicates_rootQueryEntries length_rootQueryEntries)
  then have "50000 < length (removeDuplicates (rootQueryEntries 50001))"
    "length (removeDuplicates (rootQueryEntries 50001)) \<le> 100000" by simp_all
  from buildSitemapXml_two_blocks[OF this] rootQueryEntries_normalizedPath[of 50001]
  show ?thesis by simp
qed

section \<open>Deduplication against the prefixed entries (claim C4)\<close>

lemma includes_str_iff: "includes_str s p \<longleftrightarrow> (\<exists>a b. s = a @ p @ b)"
proof (induction s)
  case Nil
  then show ?case by auto
next
  case (Cons c s)
  show ?case
  proof
    assume "includes_str (c # s) p"
    then consider "startsWith (c # s) p" | "includes_str s p" by auto
    then show "\<exists>a b. c # s = a @ p @ b"
    proof cases
      case 1
      then obtain r where "c # s = p @ r" by (auto simp: startsWith_iff)
      then have "c # s = [] @ p @ r" by simp
      then show ?thesis by blast
    next
      case 2
      with Cons obtain a b where "s = a @ p @ b" by auto
      then have "c # s = (c # a) @ p @ b" by simp
      then show ?thesis by blast
    qed
  next
    assume "\<exists>a b. c # s = a @ p @ b"
    then obtain a b where ab: "c # s = a @ p @ b" by auto
    show "includes_str (c # s) p"
    proof (cases a)
      case Nil
      with ab have "startsWith (c # s) p" by (auto simp: startsWith_iff)
      then show ?thesis by simp
    next
      case (Cons c' a')
      with ab have "s = a' @ p @ b" by simp
      with Cons.IH have "includes_str s p" by blast
      then show ?thesis by simp
    qed
  qed
qed

lemma isRootUrl_parsed:
  assumes "parseURL x = Some u"
  shows "isRootUrl x (pathname u) \<longleftrightarrow> pathname u = ''/''"
proof -
  from parseURL_wf[OF assms] have "pathname u \<noteq> []" by (auto simp: wfURL_def startsWith_slash)
  moreover have "x = BASE_URL \<Longrightarrow> pathname u = ''/''"
    using assms parse_bare_root by (auto simp: BASE_URL_def WWW_DOMAIN_def)
  moreover have "x = BASE_URL @ ''/'' \<Longrightarrow> pathname u = ''/''"
    using assms parse_slash_root by (auto simp: BASE_URL_def WWW_DOMAIN_def)
  ultimately show ?thesis unfolding isRootUrl_def by blast
qed

lemma prefixedPathSet_iff:
  assumes "startsWith p ''/''" and "\<not> isProtectedPath p"
  shows "p \<in> prefixedPathSet entries \<longleftrightarrow>
         (\<exists>e' \<in> set entries. \<exists>u'. parseURL (loc e') = Some u' \<and> pathname u' = ''/city-by-urban'' @ p)"
proof
  assume "p \<in> prefixedPathSet entries"
  then obtain e' where e': "e' \<in> set entries" "prefixedPath e' = Some p"
    unfolding prefixedPathSet_def by blast
  then obtain u' where u': "parseURL (loc e') = Some u'" "startsWith (pathname u') ''/city-by-urban/''"
    "drop (length ''/city-by-urban'') (pathname u') = p"
    by (auto simp: prefixedPath_def split: option.splits if_splits)
  from u'(2) obtain r where "pathname u' = ''/city-by-urban/'' @ r" by (auto simp: startsWith_iff)
  with u'(3) have "pathname u' = ''/city-by-urban'' @ p" by auto
  with e'(1) u'(1) show "\<exists>e' \<in> set entries. \<exists>u'. parseURL (loc e') = Some u' \<and> pathname u' = ''/city-by-urban'' @ p"
    by blast
next
  assume "\<exists>e' \<in> set entries. \<exists>u'. parseURL (loc e') = Some u' \<and> pathname u' = ''/city-by-urban'' @ p"
  then obtain e' u' where e': "e' \<in> set entries" "parseURL (loc e') = Some u'"
    "pathname u' = ''/city-by-urban'' @ p" by blast
  from assms(1) obtain r where r: "p = CHR ''/'' # r" by (auto simp: startsWith_slash)
  with e'(3) have "pathname u' = ''/city-by-urban/'' @ r" by simp
  then have "startsWith (pathname u') ''/city-by-urban/''" unfolding startsWith_iff by blast
  moreover from e'(3) have "drop (length ''/city-by-urban'') (pathname u') = p" by simp
  ultimately have "prefixedPath e' = Some p" using e'(2) by (simp add: prefixedPath_def)
  with e'(1) assms(2) show "p \<in> prefixedPathSet entries" unfolding prefixedPathSet_def by blast
qed

lemma keepMainSiteUrl_parsed:
  assumes "parseURL (loc e) = Some u"
  shows "keepMainSiteUrl (prefixedPathSet entries) e \<longleftrightarrow>
         \<not> (\<not> (\<exists>r. pathname u = ''/city-by-urban/'' @ r) \<and>
            pathname u \<noteq> ''/'' \<and>
            pathname u \<notin> set [''/'', ''/city-by-urban'', ''/venues'', ''/private-hire'', ''/whats-on'',
                               ''/christmas'', ''/bookings'', ''/contact''] \<and>
            \<not> (\<exists>a b. pathname u = a @ ''/bookings/all-sites'' @ b) \<and>
            (\<exists>e' \<in> set entries. \<exists>u'. parseURL (loc e') = Some u' \<and>
                                     pathname u' = ''/city-by-urban'' @ pathname u))"
proof -
  from parseURL_wf[OF assms] have sl: "startsWith (pathname u) ''/''" by (simp add: wfURL_def)
  have prot: "isProtectedPath (pathname u) \<longleftrightarrow>
                pathname u \<in> set [''/'', ''/city-by-urban'', ''/venues'', ''/private-hire'', ''/whats-on'',
                                  ''/christmas'', ''/bookings'', ''/contact'']"
    by (simp add: isProtectedPath_def PROTECTED_PATHS_def)
  have pat: "matchesProtectedPattern (pathname u) \<longleftrightarrow> (\<exists>a b. pathname u = a @ ''/bookings/all-sites'' @ b)"
  proof -
    have "matchesProtectedPattern (pathname u) = includes_str (pathname u) ''/bookings/all-sites''"
      by (simp add: matchesProtectedPattern_def PROTECTED_PATH_PATTERNS_def list_ex_iff)
    then show ?thesis by (simp only: includes_str_iff)
  qed
  have k: "keepMainSiteUrl (prefixedPathSet entries) e \<longleftrightarrow>
             (startsWith (pathname u) ''/city-by-urban/'' \<or> isRootUrl (loc e) (pathname u) \<or>
              isProtectedPath (pathname u) \<or> matchesProtectedPattern (pathname u) \<or>
              pathname u \<notin> prefixedPathSet entries)"
    using assms by (simp add: keepMainSiteUrl_def Let_def)
  show ?thesis
  proof (cases "isProtectedPath (pathname u)")
    case True
    with k prot show ?thesis by blast
  next
    case False
    note mem = prefixedPathSet_iff[OF sl False, of entries]
    show ?thesis
      unfolding k isRootUrl_parsed[OF assms] startsWith_iff pat mem using False prot by blast
  qed
qed

text \<open>
  Claim C4, as amended. For entries whose locations parse, the deduplication returns the
  entries in their order and unchanged, without those that it removes. An entry is removed
  if and only if its path does not start with \<^verbatim>\<open>/city-by-urban/\<close>, is not the root, is
  none of the eight protected paths, does not contain \<^verbatim>\<open>/bookings/all-sites\<close> anywhere,
  and some entry of the list has the path \<^verbatim>\<open>/city-by-urban\<close> followed by this path.
\<close>

theorem deduplication_removes_exactly:
  assumes "\<forall>e \<in> set entries. parseURL (loc e) \<noteq> None"
  shows "urls (removeDuplicateMainSiteUrls entries trackRemovals) =
           filter (\<lambda>e. \<not> (\<exists>u. parseURL (loc e) = Some u \<and>
                              \<not> (\<exists>r. pathname u = ''/city-by-urban/'' @ r) \<and>
                              pathname u \<noteq> ''/'' \<and>
                              pathname u \<notin> set [''/'', ''/city-by-urban'', ''/venues'', ''/private-hire'',
                                                 ''/whats-on'', ''/christmas'', ''/bookings'', ''/contact''] \<and>
                              \<not> (\<exists>a b. pathname u = a @ ''/bookings/all-sites'' @ b) \<and>
                              (\<exists>e' \<in> set entries. \<exists>u'. parseURL (loc e') = Some u' \<and>
                                                       pathname u' = ''/city-by-urban'' @ pathname u)))
                  entries"
proof -
  have s: "fst (foldl collectCityPath ({}, Map.empty) entries) = prefixedPathSet entries"
    by (simp add: foldl_collectCityPath_fst)
  show ?thesis
    unfolding urls_removeDuplicateMainSiteUrls s
  proof (rule filter_cong[OF refl])
    fix e
    assume "e \<in> set entries"
    with assms obtain u where u: "parseURL (loc e) = Some u" by auto
    show "keepMainSiteUrl (prefixedPathSet entries) e =
          (\<not> (\<exists>u. parseURL (loc e) = Some u \<and>
                              \<not> (\<exists>r. pathname u = ''/city-by-urban/'' @ r) \<and>
                              pathname u \<noteq> ''/'' \<and>
                              pathname u \<notin> set [''/'', ''/city-by-urban'', ''/venues'', ''/private-hire'',
                                                 ''/whats-on'', ''/christmas'', ''/bookings'', ''/contact''] \<and>
                              \<not> (\<exists>a b. pathname u = a @ ''/bookings/all-sites'' @ b) \<and>
                              (\<exists>e' \<in> set entries. \<exists>u'. parseURL (loc e') = Some u' \<and>
                                                       pathname u' = ''/city-by-urban'' @ pathname u)))"
      unfolding keepMainSiteUrl_parsed[OF u, of entries] using u by simp
  qed
qed

text \<open>
  Claim C4, witness: \<^verbatim>\<open>/fleet\<close> beside \<^verbatim>\<open>/city-by-urban/fleet\<close> is removed, and the
  prefixed entry is kept.
\<close>

theorem deduplication_removes_exactly_witness:
  "urls (removeDuplicateMainSiteUrls
           [locOnly ''https://www.urbanpubsandbars.com/fleet'',
            locOnly ''https://www.urbanpubsandbars.com/city-by-urban/fleet''] False) =
     [locOnly ''https://www.urbanpubsandbars.com/city-by-urban/fleet'']"
proof -
  let ?fleet = "locOnly ''https://www.urbanpubsandbars.com/fleet''"
  let ?city = "locOnly ''https://www.urbanpubsandbars.com/city-by-urban/fleet''"
  have p: "\<forall>e \<in> set [?fleet, ?city]. parseURL (loc e) \<noteq> None"
    by (simp add: locOnly_def parse_fleet parse_city_fleet)
  have no_pattern: "\<not> (\<exists>a b. ''/fleet'' = a @ ''/bookings/all-sites'' @ b)"
    unfolding includes_str_iff[symmetric] by code_simp
  have no_prefix: "\<not> (\<exists>r. ''/fleet'' = ''/city-by-urban/'' @ r)" by simp
  have is_prefixed: "\<exists>r. ''/city-by-urban/fleet'' = ''/city-by-urban/'' @ r" by simp
  have "urls (removeDuplicateMainSiteUrls [?fleet, ?city] False) = [?city]"
    unfolding deduplication_removes_exactly[OF p]
    using no_pattern no_prefix is_prefixed
    by (simp add: locOnly_def parse_fleet parse_city_fleet)
  then show ?thesis .
qed

text \<open>
  Claim C4, counterexample. The path \<^verbatim>\<open>/x/bookings/all-sites\<close> is not the root, is not a
  protected path, does not start with the protected pattern \<^verbatim>\<open>/bookings/all-sites\<close>, and
  its prefixed twin is in the list, so by the rule of the specification the entry is
  removed; the code, which exempts every path that contains the pattern, keeps it.
\<close>

theorem pattern_inside_path_kept:
  "removedBySpec
     [locOnly ''https://www.urbanpubsandbars.com/x/bookings/all-sites'',
      locOnly ''https://www.urbanpubsandbars.com/city-by-urban/x/bookings/all-sites'']
     (locOnly ''https://www.urbanpubsandbars.com/x/bookings/all-sites'')
   \<and> urls (removeDuplicateMainSiteUrls
             [locOnly ''https://www.urbanpubsandbars.com/x/bookings/all-sites'',
              locOnly ''https://www.urbanpubsandbars.com/city-by-urban/x/bookings/all-sites''] False) =
       [locOnly ''https://www.urbanpubsandbars.com/x/bookings/all-sites'',
        locOnly ''https://www.urbanpubsandbars.com/city-by-urban/x/bookings/all-sites'']"
  by code_simp

section \<open>Protected paths in the merged document (claim C2)\<close>

lemma concat_map_contains:
  assumes "e \<in> set xs" and "f e = a @ m @ b"
  shows "\<exists>pre post. h @ concat (map f xs) @ t = pre @ m @ post"
proof -
  from assms(1) obtain ys zs where "xs = ys @ e # zs" by (auto dest: split_list)
  then have "h @ concat (map f xs) @ t =
               (h @ concat (map f ys) @ a) @ m @ (b @ concat (map f zs) @ t)"
    using assms(2) by simp
  then show ?thesis by blast
qed

lemma urlBlock_loc:
  "urlBlock e = (''  <url>'' @ [CHR 0x0A]) @ (''    <loc>'' @ escapeXml (loc e) @ ''</loc>'')
                @ ([CHR 0x0A] @ optionalTag ''lastmod'' (lastmod e) @ optionalTag ''changefreq'' (changefreq e)
                   @ optionalTag ''priority'' (priority e) @ ''  </url>'' @ [CHR 0x0A])"
  by (simp add: urlBlock_def)

lemma urlset_contains:
  assumes "length (removeDuplicates entries) \<le> 50000" and "e \<in> set (sortedUrls cmp entries)"
  shows "\<exists>pre post. buildSitemapXml cmp entries =
                      pre @ (''    <loc>'' @ escapeXml (loc e) @ ''</loc>'') @ post"
proof -
  from concat_map_contains[where f = urlBlock and e = e, OF assms(2) urlBlock_loc]
  obtain pre post where
    "(''<?xml version='' @ [CHR 0x22] @ ''1.0'' @ [CHR 0x22] @ '' encoding='' @ [CHR 0x22] @ ''UTF-8'' @ [CHR 0x22] @ ''?>'' @ [CHR 0x0A]
       @ ''<urlset xmlns='' @ [CHR 0x22] @ ''http://www.sitemaps.org/schemas/sitemap/0.9'' @ [CHR 0x22] @ ''>'' @ [CHR 0x0A])
     @ concat (map urlBlock (sortedUrls cmp entries)) @ ''</urlset>'' =
       pre @ (''    <loc>'' @ escapeXml (loc e) @ ''</loc>'') @ post"
    by blast
  then have "buildSitemapXml cmp entries = pre @ (''    <loc>'' @ escapeXml (loc e) @ ''</loc>'') @ post"
    unfolding buildSitemapXml_urlset[OF assms(1)] by simp
  then show ?thesis by blast
qed

lemma length_synthesizedEntries: "length synthesizedEntries = 15"
  by (simp add: synthesizedEntries_def requiredProtectedPaths_def cityProtectedPaths_def
                PROTECTED_PATHS_def)

lemma finalValid_count:
  "card ((\<lambda>e. normalizeUrl (loc e)) ` set (finalValid allUrls)) \<le> length allUrls + 15"
proof -
  have "card ((\<lambda>e. normalizeUrl (loc e)) ` set (finalValid allUrls)) \<le> card (set (finalValid allUrls))"
    by (rule card_image_le) simp
  also have "\<dots> \<le> card (set allUrls \<union> set synthesizedEntries)"
    by (rule card_mono) (simp_all add: finalValid_upper)
  also have "\<dots> \<le> card (set allUrls) + card (set synthesizedEntries)"
    by (rule card_Un_le)
  also have "\<dots> \<le> length allUrls + length synthesizedEntries"
    by (intro add_mono card_length)
  finally show ?thesis by (simp add: length_synthesizedEntries)
qed

text \<open>
  Claim C2, as amended. When the sources supply at least one entry, every location parses,
  and the entries that reach the builder have at most 50,000 different normalised
  locations, the merge returns a document, and for every protected path \<open>p\<close> the document
  holds the \<^verbatim>\<open>loc\<close> element of an entry whose normalised path is \<open>p\<close> and, when \<open>p\<close> is not
  \<^verbatim>\<open>/city-by-urban\<close>, the \<^verbatim>\<open>loc\<close> element of an entry whose normalised path is the
  prefixed form \<^verbatim>\<open>/city-by-urban\<close> + \<open>p\<close>, itself normalised as the second completion loop
  does: that is the prefixed form as written unless \<open>p\<close> is the root, whose prefixed form
  \<^verbatim>\<open>/city-by-urban/\<close> normalises to \<^verbatim>\<open>/city-by-urban\<close>.
\<close>

theorem protected_paths_in_document:
  assumes "fulfilledUrls mainResult @ fulfilledUrls cityResult @ fulfilledUrls careersResult = allUrls"
    and "allUrls \<noteq> []"
    and "\<forall>e \<in> set allUrls. parseURL (loc e) \<noteq> None"
    and "card ((\<lambda>e. normalizeUrl (loc e)) ` set (finalValid allUrls)) \<le> 50000"
  shows "\<exists>doc. generateMergedSitemap localeCompare mainResult cityResult careersResult = Inr doc \<and>
           (\<forall>p \<in> set [''/'', ''/city-by-urban'', ''/venues'', ''/private-hire'', ''/whats-on'',
                       ''/christmas'', ''/bookings'', ''/contact''].
              (\<exists>e pre post. doc = pre @ (''    <loc>'' @ escapeXml (loc e) @ ''</loc>'') @ post \<and>
                             normalizedPath e = Some p) \<and>
              (p \<noteq> ''/city-by-urban'' \<longrightarrow>
                 (\<exists>e pre post. doc = pre @ (''    <loc>'' @ escapeXml (loc e) @ ''</loc>'') @ post \<and>
                                normalizedPath e = Some (normalizePath (''/city-by-urban'' @ p))) \<and>
                 (p \<noteq> ''/'' \<longrightarrow> normalizePath (''/city-by-urban'' @ p) = ''/city-by-urban'' @ p)))"
proof -
  let ?doc = "buildSitemapXml localeCompare (finalValid allUrls)"
  let ?valid = "filter isValidEntry (urls (removeDuplicateMainSiteUrls allUrls False))"
  have g: "generateMergedSitemap localeCompare mainResult cityResult careersResult = Inr ?doc"
    unfolding generateMergedSitemap_eq assms(1) using assms(2) by simp
  have len: "length (removeDuplicates (finalValid allUrls)) \<le> 50000"
    unfolding length_removeDuplicates using assms(4) .
  have s: "\<forall>e\<in>set ?valid. domainSafe e" by (rule filter_valid_safe)
  have prot: "set [''/'', ''/city-by-urban'', ''/venues'', ''/private-hire'', ''/whats-on'',
                   ''/christmas'', ''/bookings'', ''/contact''] = set PROTECTED_PATHS"
    by (simp add: PROTECTED_PATHS_def)
  have "\<forall>p \<in> set PROTECTED_PATHS.
              (\<exists>e pre post. ?doc = pre @ (''    <loc>'' @ escapeXml (loc e) @ ''</loc>'') @ post \<and>
                             normalizedPath e = Some p) \<and>
              (p \<noteq> ''/city-by-urban'' \<longrightarrow>
                 (\<exists>e pre post. ?doc = pre @ (''    <loc>'' @ escapeXml (loc e) @ ''</loc>'') @ post \<and>
                                normalizedPath e = Some (normalizePath (''/city-by-urban'' @ p))) \<and>
                 (p \<noteq> ''/'' \<longrightarrow> normalizePath (''/city-by-urban'' @ p) = ''/city-by-urban'' @ p))"
  proof
    fix p assume p: "p \<in> set PROTECTED_PATHS"
    have "\<exists>e \<in> set (sortedUrls localeCompare (finalValid allUrls)). normalizedPath e = Some p"
      unfolding finalValid_eq
      using completeProtectedPaths_has_main[OF s] p by (intro sortedUrls_keeps_path) blast
    then obtain e where e: "e \<in> set (sortedUrls localeCompare (finalValid allUrls))"
      "normalizedPath e = Some p" by blast
    from urlset_contains[OF len e(1)] e(2)
    have 1: "\<exists>e pre post. ?doc = pre @ (''    <loc>'' @ escapeXml (loc e) @ ''</loc>'') @ post \<and>
                           normalizedPath e = Some p" by blast
    have 2: "\<exists>e pre post. ?doc = pre @ (''    <loc>'' @ escapeXml (loc e) @ ''</loc>'') @ post \<and>
                           normalizedPath e = Some (normalizePath (''/city-by-urban'' @ p))"
      if "p \<noteq> ''/city-by-urban''"
    proof -
      have "\<exists>e \<in> set (sortedUrls localeCompare (finalValid allUrls)).
               normalizedPath e = Some (normalizePath (''/city-by-urban'' @ p))"
        unfolding finalValid_eq
        using completeProtectedPaths_has_city[OF s] p that by (intro sortedUrls_keeps_path) blast
      then obtain e' where e': "e' \<in> set (sortedUrls localeCompare (finalValid allUrls))"
        "normalizedPath e' = Some (normalizePath (''/city-by-urban'' @ p))" by blast
      from urlset_contains[OF len e'(1)] e'(2) show ?thesis by blast
    qed
    have 3: "p \<noteq> ''/'' \<longrightarrow> normalizePath (''/city-by-urban'' @ p) = ''/city-by-urban'' @ p"
      using prefixed_protected_normal p by (simp add: list_all_iff)
    from 1 2 3
    show "(\<exists>e pre post. ?doc = pre @ (''    <loc>'' @ escapeXml (loc e) @ ''</loc>'') @ post \<and>
                             normalizedPath e = Some p) \<and>
              (p \<noteq> ''/city-by-urban'' \<longrightarrow>
                 (\<exists>e pre post. ?doc = pre @ (''    <loc>'' @ escapeXml (loc e) @ ''</loc>'') @ post \<and>
                                normalizedPath e = Some (normalizePath (''/city-by-urban'' @ p))) \<and>
                 (p \<noteq> ''/'' \<longrightarrow> normalizePath (''/city-by-urban'' @ p) = ''/city-by-urban'' @ p))"
      by blast
  qed
  with g show ?thesis unfolding prot by blast
qed

text \<open>
  Claim C2, witness: the main source supplies \<^verbatim>\<open>/venues\<close> alone; the document holds an
  entry with the normalised path \<^verbatim>\<open>/contact\<close> and one with \<^verbatim>\<open>/city-by-urban/contact\<close>.
\<close>

theorem protected_paths_in_document_witness:
  "\<exists>doc. generateMergedSitemap codeUnitCompare
            (Inr [locOnly ''https://www.urbanpubsandbars.com/venues'']) (Inr []) (Inr []) = Inr doc \<and>
         (\<exists>e pre post. doc = pre @ (''    <loc>'' @ escapeXml (loc e) @ ''</loc>'') @ post \<and>
                        normalizedPath e = Some ''/contact'') \<and>
         (\<exists>e pre post. doc = pre @ (''    <loc>'' @ escapeXml (loc e) @ ''</loc>'') @ post \<and>
                        normalizedPath e = Some ''/city-by-urban/contact'')"
proof -
  let ?all = "[locOnly ''https://www.urbanpubsandbars.com/venues'']"
  have 1: "fulfilledUrls (Inr ?all) @ fulfilledUrls (Inr []) @ fulfilledUrls (Inr []) = ?all"
    by (simp add: fulfilledUrls_def)
  have 2: "?all \<noteq> []" by simp
  have 3: "\<forall>e \<in> set ?all. parseURL (loc e) \<noteq> None" by (simp add: locOnly_def parse_venues)
  have 4: "card ((\<lambda>e. normalizeUrl (loc e)) ` set (finalValid ?all)) \<le> 50000"
    using finalValid_count[of ?all] by simp
  from protected_paths_in_document[OF 1 2 3 4, of codeUnitCompare]
  obtain doc where doc: "generateMergedSitemap codeUnitCompare (Inr ?all) (Inr []) (Inr []) = Inr doc"
    and all: "\<forall>p \<in> set [''/'', ''/city-by-urban'', ''/venues'', ''/private-hire'', ''/whats-on'',
                       ''/christmas'', ''/bookings'', ''/contact''].
              (\<exists>e pre post. doc = pre @ (''    <loc>'' @ escapeXml (loc e) @ ''</loc>'') @ post \<and>
                             normalizedPath e = Some p) \<and>
              (p \<noteq> ''/city-by-urban'' \<longrightarrow>
                 (\<exists>e pre post. doc = pre @ (''    <loc>'' @ escapeXml (loc e) @ ''</loc>'') @ post \<and>
                                normalizedPath e = Some (normalizePath (''/city-by-urban'' @ p))) \<and>
                 (p \<noteq> ''/'' \<longrightarrow> normalizePath (''/city-by-urban'' @ p) = ''/city-by-urban'' @ p))"
    by blast
  have m: "''/contact'' \<in> set [''/'', ''/city-by-urban'', ''/venues'', ''/private-hire'', ''/whats-on'',
                       ''/christmas'', ''/bookings'', ''/contact'']" by simp
  have n: "''/contact'' \<noteq> ''/city-by-urban''" "''/contact'' \<noteq> ''/''" by simp_all
  from all[rule_format, OF m] n
  have a: "\<exists>e pre post. doc = pre @ (''    <loc>'' @ escapeXml (loc e) @ ''</loc>'') @ post \<and>
                        normalizedPath e = Some ''/contact''"
    and b: "\<exists>e pre post. doc = pre @ (''    <loc>'' @ escapeXml (loc e) @ ''</loc>'') @ post \<and>
                        normalizedPath e = Some (normalizePath (''/city-by-urban'' @ ''/contact''))"
    and c: "normalizePath (''/city-by-urban'' @ ''/contact'') = ''/city-by-urban'' @ ''/contact''"
    by blast+
  have d: "''/city-by-urban'' @ ''/contact'' = ''/city-by-urban/contact''" by simp
  have c': "normalizePath ''/city-by-urban/contact'' = ''/city-by-urban/contact''" by code_simp
  from b have b': "\<exists>e pre post. doc = pre @ (''    <loc>'' @ escapeXml (loc e) @ ''</loc>'') @ post \<and>
                        normalizedPath e = Some ''/city-by-urban/contact''"
    unfolding d c' .
  from doc a b' show ?thesis by blast
qed

lemma rootQueryEntries_reach_builder:
  "set (rootQueryEntries n) \<subseteq> set (finalValid (rootQueryEntries n))"
proof
  fix e assume e: "e \<in> set (rootQueryEntries n)"
  from rootQueryEntries_parse[OF e] obtain q where
    "parseURL (loc e) = Some \<lparr>protocol = ''https:'', hostname = ''www.urbanpubsandbars.com'',
                                pathname = ''/'', query = Some q, fragment = None\<rparr>" by blast
  from root_entry_reaches_builder(2)[OF e this] show "e \<in> set (finalValid (rootQueryEntries n))"
    by simp
qed

lemma rootQueryEntries_builder_count:
  "n \<le> length (removeDuplicates (finalValid (rootQueryEntries n)))"
  "length (removeDuplicates (finalValid (rootQueryEntries n))) \<le> n + 15"
proof -
  have "card ((\<lambda>e. normalizeUrl (loc e)) ` set (rootQueryEntries n)) \<le>
        card ((\<lambda>e. normalizeUrl (loc e)) ` set (finalValid (rootQueryEntries n)))"
    by (rule card_mono) (use rootQueryEntries_reach_builder in auto)
  then show "n \<le> length (removeDuplicates (finalValid (rootQueryEntries n)))"
    unfolding length_removeDuplicates rootQueryEntries_count .
  show "length (removeDuplicates (finalValid (rootQueryEntries n))) \<le> n + 15"
    unfolding length_removeDuplicates
    using finalValid_count[of "rootQueryEntries n"] by (simp add: length_rootQueryEntries)
qed

text \<open>
  Claim C2, counterexample. When the three sources are fetched and hold no entry, the merge
  fails and there is no document. When the main source supplies 50,001 root locations that
  differ in their query, the document is the index of two sitemaps, which holds no entry
  for \<^verbatim>\<open>/venues\<close> or any other path.
\<close>

theorem no_protected_path_in_document:
  "generateMergedSitemap codeUnitCompare (Inr []) (Inr []) (Inr []) = Inl AllSourcesFailed \<and>
   generateMergedSitemap codeUnitCompare (Inr (rootQueryEntries 50001)) (Inr []) (Inr []) =
     Inr (''<?xml version='' @ [CHR 0x22] @ ''1.0'' @ [CHR 0x22] @ '' encoding='' @ [CHR 0x22] @ ''UTF-8'' @ [CHR 0x22] @ ''?>'' @ [CHR 0x0A]
          @ ''<sitemapindex xmlns='' @ [CHR 0x22] @ ''http://www.sitemaps.org/schemas/sitemap/0.9'' @ [CHR 0x22] @ ''>'' @ [CHR 0x0A]
          @ ''  <sitemap>'' @ [CHR 0x0A]
          @ ''    <loc>https://www.urbanpubsandbars.com/sitemap-1.xml</loc>'' @ [CHR 0x0A]
          @ ''  </sitemap>'' @ [CHR 0x0A]
          @ ''  <sitemap>'' @ [CHR 0x0A]
          @ ''    <loc>https://www.urbanpubsandbars.com/sitemap-2.xml</loc>'' @ [CHR 0x0A]
          @ ''  </sitemap>'' @ [CHR 0x0A]
          @ ''</sitemapindex>'')"
proof -
  have a: "generateMergedSitemap codeUnitCompare (Inr []) (Inr []) (Inr []) = Inl AllSourcesFailed"
    by (simp add: generateMergedSitemap_eq fulfilledUrls_def)
  have ne: "rootQueryEntries 50001 \<noteq> []" using length_rootQueryEntries[of 50001] by auto
  have g: "generateMergedSitemap codeUnitCompare (Inr (rootQueryEntries 50001)) (Inr []) (Inr []) =
             Inr (buildSitemapXml codeUnitCompare (finalValid (rootQueryEntries 50001)))"
    using ne by (simp add: generateMergedSitemap_eq fulfilledUrls_def)
  from rootQueryEntries_builder_count[of 50001]
  have "50000 < length (removeDuplicates (finalValid (rootQueryEntries 50001)))"
    "length (removeDuplicates (finalValid (rootQueryEntries 50001))) \<le> 100000" by simp_all
  from buildSitemapXml_two_blocks[OF this, of codeUnitCompare] a show ?thesis
    unfolding g by simp
qed

end
